(* ===== verification/RLQS_Prelude.thy ===== *)
theory RLQS_Prelude
  imports
    Main
    "HOL-Library.AList"
    "HOL-Library.Word"
    "HOL-Library.Char_ord"
    "HOL-Library.List_Lexorder"
begin

text \<open>
  Shared vocabulary of the development: Go's machine types, errors and contexts, and Go's
  built-in maps as association lists with distinct keys. The list order stands for one
  iteration order of the map; lookups, \<open>len\<close>, \<open>m[k] = v\<close> and \<open>delete(m, k)\<close> are
  \<^const>\<open>map_of\<close>, \<^const>\<open>length\<close>, \<^const>\<open>AList.update\<close> and \<^const>\<open>AList.delete\<close>.
\<close>

section \<open>Machine types, errors and contexts\<close>

type_synonym uint64 = "64 word"
type_synonym uint32 = "32 word"

text \<open>\<open>time.Duration\<close> is an \<open>int64\<close> count of nanoseconds: a 64 bit word read with \<^const>\<open>sint\<close>.\<close>

type_synonym duration = "64 word"

definition Millisecond :: duration where "Millisecond = 1000000"

definition Second :: duration where "Second = 1000000000"

definition Minute :: duration where "Minute = 60000000000"

type_synonym go_error = string
type_synonym go_panic = string

text \<open>
  The parts of \<open>context.Context\<close> the source builds: the background context, the context of
  an RPC stream, and a context derived with \<open>context.WithTimeout\<close>.
\<close>

datatype go_context = Background | StreamContext nat | WithTimeout go_context duration

section \<open>Collections of simplification rules\<close>

named_theorems gomap_simps \<open>lookups, lengths and key sets of Go maps\<close>

section \<open>Go maps\<close>

type_synonym ('k, 'v) gomap = "('k \<times> 'v) list"

abbreviation keys :: "('k, 'v) gomap \<Rightarrow> 'k list" where
  "keys m \<equiv> map fst m"

abbreviation wf_map :: "('k, 'v) gomap \<Rightarrow> bool" where
  "wf_map m \<equiv> distinct (keys m)"

text \<open>Reading an absent key of a Go map yields the zero value of the element type.\<close>

definition get_or :: "'v \<Rightarrow> ('k, 'v) gomap \<Rightarrow> 'k \<Rightarrow> 'v" where
  "get_or z m k = (case map_of m k of None \<Rightarrow> z | Some v \<Rightarrow> v)"

text \<open>The number of keys of a map that satisfy a predicate.\<close>

definition key_count :: "('k \<Rightarrow> bool) \<Rightarrow> ('k, 'v) gomap \<Rightarrow> nat" where
  "key_count P m = length (filter P (keys m))"

lemma map_of_None_keys: "map_of m k = None \<longleftrightarrow> k \<notin> set (keys m)"
  by (simp add: map_of_eq_None_iff)

lemma map_of_wf_Some: "wf_map m \<Longrightarrow> map_of m k = Some v \<longleftrightarrow> (k, v) \<in> set m"
  by (simp add: map_of_eq_Some_iff)

lemma map_of_update [gomap_simps]:
  "map_of (AList.update k v m) k' = (if k' = k then Some v else map_of m k')"
  by (simp add: update_conv')

lemma map_of_delete [gomap_simps]:
  "map_of (AList.delete k m) k' = (if k' = k then None else map_of m k')"
  by (simp add: delete_conv')

lemma keys_update_new: "k \<notin> set (keys m) \<Longrightarrow> AList.update k v m = m @ [(k, v)]"
  by (induction m) auto

lemma keys_update_old: "k \<in> set (keys m) \<Longrightarrow> keys (AList.update k v m) = keys m"
  by (induction m) auto

lemma keys_delete: "keys (AList.delete k m) = filter (\<lambda>x. x \<noteq> k) (keys m)"
  by (induction m) auto

lemma set_delete_subset: "set (AList.delete k m) \<subseteq> set m"
  by (induction m) auto

lemma set_keys_update [gomap_simps]: "set (keys (AList.update k v m)) = insert k (set (keys m))"
  by (induction m) auto

lemma set_keys_delete [gomap_simps]: "set (keys (AList.delete k m)) = set (keys m) - {k}"
  by (auto simp: keys_delete)

lemma image_keys_update [gomap_simps]: "fst ` set (AList.update k v m) = insert k (fst ` set m)"
  using set_keys_update [of k v m] by simp

lemma image_keys_delete [gomap_simps]: "fst ` set (AList.delete k m) = fst ` set m - {k}"
  using set_keys_delete [of k m] by simp

lemma wf_map_update [simp]: "wf_map m \<Longrightarrow> wf_map (AList.update k v m)"
  by (rule distinct_update)

lemma wf_map_delete [simp]: "wf_map m \<Longrightarrow> wf_map (AList.delete k m)"
  by (rule distinct_delete)

lemma length_update [gomap_simps]:
  "length (AList.update k v m) = (if k \<in> set (keys m) then length m else Suc (length m))"
proof (cases "k \<in> set (keys m)")
  case True
  then have "length (keys (AList.update k v m)) = length (keys m)"
    by (simp only: keys_update_old)
  with True show ?thesis by simp
qed (simp add: keys_update_new)

lemma length_delete: "length (AList.delete k m) \<le> length m"
  by (rule length_delete_le)

lemma get_or_update [gomap_simps]:
  "get_or z (AList.update k v m) k' = (if k' = k then v else get_or z m k')"
  by (simp add: get_or_def gomap_simps)

lemma get_or_delete [gomap_simps]:
  "get_or z (AList.delete k m) k' = (if k' = k then z else get_or z m k')"
  by (simp add: get_or_def gomap_simps)

lemma get_or_Nil [simp]: "get_or z [] k = z"
  by (simp add: get_or_def)

lemma key_count_Nil [simp]: "key_count P [] = 0"
  by (simp add: key_count_def)

lemma key_count_update_new:
  "k \<notin> set (keys m) \<Longrightarrow> key_count P (AList.update k v m) = key_count P m + (if P k then 1 else 0)"
  by (simp add: key_count_def keys_update_new)

lemma length_filter_remove:
  "distinct xs \<Longrightarrow> k \<in> set xs \<Longrightarrow>
    length (filter P xs) = length (filter P (filter (\<lambda>x. x \<noteq> k) xs)) + (if P k then 1 else 0)"
proof (induction xs)
  case (Cons x xs)
  have "filter P xs = filter (\<lambda>y. y \<noteq> k \<and> P y) xs" if "k \<notin> set xs"
    using that by (intro filter_cong) auto
  with Cons show ?case by (cases "x = k") auto
qed simp

lemma key_count_delete:
  assumes "wf_map m" and "k \<in> set (keys m)"
  shows "key_count P m = key_count P (AList.delete k m) + (if P k then 1 else 0)"
  using length_filter_remove [OF assms, of P] by (simp only: key_count_def keys_delete)

lemma key_count_True [simp]: "key_count (\<lambda>_. True) m = length m"
  by (simp add: key_count_def)

lemma count_list_distinct:
  "distinct xs \<Longrightarrow> count_list xs y = (if y \<in> set xs then 1 else 0)"
  by (induction xs) (auto simp: count_list_0_iff)

lemma key_count_inj:
  assumes "wf_map m" and "inj_on f (set (keys m))"
  shows "key_count (\<lambda>k. f k = y) m = (if y \<in> f ` set (keys m) then 1 else 0)"
proof -
  have "distinct (map f (keys m))"
    using assms by (simp only: distinct_map)
  then have "count_list (map f (keys m)) y = (if y \<in> set (map f (keys m)) then 1 else 0)"
    by (rule count_list_distinct)
  moreover have "key_count (\<lambda>k. f k = y) m = count_list (map f (keys m)) y"
    unfolding key_count_def by (induction m) auto
  ultimately show ?thesis by (simp add: image_image)
qed

section \<open>Sums over lists of pointers\<close>

lemma sum_list_change:
  fixes f g :: "'a \<Rightarrow> int"
  assumes "distinct xs" and "x \<in> set xs" and "\<And>y. y \<in> set xs \<Longrightarrow> y \<noteq> x \<Longrightarrow> g y = f y"
  shows "(\<Sum>y\<leftarrow>xs. g y) = (\<Sum>y\<leftarrow>xs. f y) + g x - f x"
proof -
  have "sum g (set xs - {x}) = sum f (set xs - {x})"
    using assms(3) by (intro sum.cong) auto
  moreover have "sum g (set xs) = g x + sum g (set xs - {x})" "sum f (set xs) = f x + sum f (set xs - {x})"
    using assms(2) by (simp_all add: sum.remove)
  ultimately show ?thesis
    using assms(1) by (simp add: sum_list_distinct_conv_sum_set)
qed

lemma sum_list_remove1:
  fixes f :: "'a \<Rightarrow> int"
  shows "x \<in> set xs \<Longrightarrow> (\<Sum>y\<leftarrow>remove1 x xs. f y) = (\<Sum>y\<leftarrow>xs. f y) - f x"
  by (induction xs) auto

lemma sum_list_cong_set: "(\<And>y. y \<in> set xs \<Longrightarrow> f y = g y) \<Longrightarrow> (\<Sum>y\<leftarrow>xs. f y) = (\<Sum>y\<leftarrow>xs. g y)"
  by (metis map_cong)

lemma sum_list_member:
  fixes f :: "'a \<Rightarrow> int"
  assumes "x \<in> set xs" and "\<And>y. f y \<ge> 0"
  shows "f x \<le> (\<Sum>y\<leftarrow>xs. f y)"
proof -
  have "(\<Sum>y\<leftarrow>ys. f y) \<ge> 0" for ys
    using assms(2) by (intro sum_list_nonneg) auto
  with assms show ?thesis by (induction xs) (auto simp: add_increasing add_increasing2)
qed

lemma sum_list_nonzero:
  fixes f :: "'a \<Rightarrow> int"
  shows "(\<Sum>x\<leftarrow>xs. f x) \<noteq> 0 \<Longrightarrow> \<exists>x \<in> set xs. f x \<noteq> 0"
  by (induction xs) auto

lemma map_of_all_None: "(\<And>k. map_of m k = None) \<Longrightarrow> m = []"
proof (cases m)
  case (Cons p ps)
  then have "map_of m (fst p) = Some (snd p)" by (cases p) simp
  moreover assume "\<And>k. map_of m k = None"
  ultimately show ?thesis by simp
qed simp

end
