(* ===== verification/Storage.thy ===== *)
theory Storage
  imports RLQS_Prelude
begin

text \<open>
  The package \<open>internal/storage\<close> without Redis: canonical bucket keys, the two storage
  interfaces and the in-memory implementation of both (\<open>src/internal/storage/storage.go\<close>).
  The interfaces are the locales \<open>usage_storage\<close> (Go's \<open>Storage\<close>), \<open>fail_open_store\<close> and
  \<open>bucket_store\<close> (what the server relies on of Go's \<open>BucketStore\<close>); \<open>MemoryStorage\<close> is an
  instance of all three.
\<close>

section \<open>Bucket identifiers and their canonical keys\<close>

type_synonym BucketKey = string

text \<open>The \<open>BucketId\<close> message: its \<open>bucket\<close> field, a map from strings to strings.\<close>

record BucketId =
  Bucket :: "(string, string) gomap"

text \<open>The loop over the sorted keys: \<open>i\<close> is the loop index, the result the bytes written.\<close>

fun write_pairs :: "(string, string) gomap \<Rightarrow> nat \<Rightarrow> string list \<Rightarrow> string" where
  "write_pairs m i [] = []"
| "write_pairs m i (k # ks) =
     (if i > 0 then [CHR 0x1E] else []) @ k @ [CHR 0x00] @ get_or [] m k
       @ write_pairs m (Suc i) ks"

text \<open>\<open>sort.Strings\<close> orders bytewise and lexicographically, as \<^const>\<open>sort\<close> does on \<^typ>\<open>string list\<close>.\<close>

definition BucketKeyFromProto :: "BucketId option \<Rightarrow> BucketKey" where
  "BucketKeyFromProto idp =
     (case idp of
        None \<Rightarrow> []
      | Some b \<Rightarrow>
          if length (Bucket b) = 0 then []
          else write_pairs (Bucket b) 0 (sort (keys (Bucket b))))"

definition DomainScopedKey :: "string \<Rightarrow> BucketKey \<Rightarrow> BucketKey" where
  "DomainScopedKey domain key =
     (if domain = [] then key else domain @ [CHR 0x1F] @ key)"

text \<open>A usage report, as the server hands it to the store and to the engine.\<close>

record UsageReport =
  ReportBucketId :: "BucketId option"
  NumRequestsAllowed :: uint64
  NumRequestsDenied :: uint64
  TimeElapsed :: duration

record UsageState =
  Allowed :: uint64
  Denied :: uint64

text \<open>The method set of the interface \<open>BucketStore\<close>, for a store with state \<open>'st\<close>.\<close>

record 'st BucketStore =
  RecordUsage :: "go_context \<Rightarrow> string \<Rightarrow> UsageReport \<Rightarrow> 'st \<Rightarrow> 'st \<times> go_error option"
  RemoveBucket :: "go_context \<Rightarrow> string \<Rightarrow> BucketKey \<Rightarrow> 'st \<Rightarrow> 'st \<times> go_error option"

section \<open>MemoryStorage\<close>

record MemoryStorage =
  buckets :: "(BucketKey, UsageState) gomap"

definition NewMemoryStorage :: MemoryStorage where
  "NewMemoryStorage = \<lparr>buckets = []\<rparr>"

definition MemoryStorage_Get :: "MemoryStorage \<Rightarrow> BucketKey \<Rightarrow> UsageState \<times> bool" where
  "MemoryStorage_Get s key =
     (case map_of (buckets s) key of
        None \<Rightarrow> (\<lparr>Allowed = 0, Denied = 0\<rparr>, False)
      | Some state \<Rightarrow> (state, True))"

definition MemoryStorage_Update :: "BucketKey \<Rightarrow> uint64 \<Rightarrow> uint64 \<Rightarrow> MemoryStorage \<Rightarrow> MemoryStorage" where
  "MemoryStorage_Update key allowed denied s =
     (case map_of (buckets s) key of
        None \<Rightarrow> s\<lparr>buckets := AList.update key \<lparr>Allowed = allowed, Denied = denied\<rparr> (buckets s)\<rparr>
      | Some state \<Rightarrow>
          s\<lparr>buckets := AList.update key
              \<lparr>Allowed = Allowed state + allowed, Denied = Denied state + denied\<rparr> (buckets s)\<rparr>)"

definition MemoryStorage_Reset :: "BucketKey \<Rightarrow> MemoryStorage \<Rightarrow> MemoryStorage" where
  "MemoryStorage_Reset key s = s\<lparr>buckets := AList.delete key (buckets s)\<rparr>"

text \<open>The copying loop of \<open>All\<close>: \<open>result[k] = *v\<close> for every entry.\<close>

definition MemoryStorage_All :: "MemoryStorage \<Rightarrow> (BucketKey, UsageState) gomap" where
  "MemoryStorage_All s = fold (\<lambda>(k, v) result. AList.update k v result) (buckets s) []"

definition MemoryStorage_RecordUsage ::
  "go_context \<Rightarrow> string \<Rightarrow> UsageReport \<Rightarrow> MemoryStorage \<Rightarrow> MemoryStorage \<times> go_error option" where
  "MemoryStorage_RecordUsage ctx domain report s =
     (let key = BucketKeyFromProto (ReportBucketId report);
          scopedKey = DomainScopedKey domain key
      in (MemoryStorage_Update scopedKey (NumRequestsAllowed report) (NumRequestsDenied report) s, None))"

definition MemoryStorage_RemoveBucket ::
  "go_context \<Rightarrow> string \<Rightarrow> BucketKey \<Rightarrow> MemoryStorage \<Rightarrow> MemoryStorage \<times> go_error option" where
  "MemoryStorage_RemoveBucket ctx domain key s =
     (let scopedKey = DomainScopedKey domain key in (MemoryStorage_Reset scopedKey s, None))"

definition MemoryStorage_Len :: "MemoryStorage \<Rightarrow> nat" where
  "MemoryStorage_Len s = length (buckets s)"

definition MemoryStorage_Clear :: "MemoryStorage \<Rightarrow> MemoryStorage" where
  "MemoryStorage_Clear s = s\<lparr>buckets := []\<rparr>"

definition MemoryStorage_store :: "MemoryStorage BucketStore" where
  "MemoryStorage_store =
     \<lparr>RecordUsage = MemoryStorage_RecordUsage, RemoveBucket = MemoryStorage_RemoveBucket\<rparr>"

text \<open>Well-formedness: the association list represents a Go map.\<close>

definition MemoryStorage_wf :: "MemoryStorage \<Rightarrow> bool" where
  "MemoryStorage_wf s \<longleftrightarrow> wf_map (buckets s)"

section \<open>Canonical keys: order independence, decoding, injectivity\<close>

text \<open>The scoped key a report is counted under.\<close>

abbreviation report_key :: "string \<Rightarrow> UsageReport \<Rightarrow> BucketKey" where
  "report_key domain r \<equiv> DomainScopedKey domain (BucketKeyFromProto (ReportBucketId r))"

definition separator_free :: "(string, string) gomap \<Rightarrow> bool" where
  "separator_free m \<longleftrightarrow>
     (\<forall>(k, v) \<in> set m. CHR 0x00 \<notin> set k \<and> CHR 0x1E \<notin> set k \<and> CHR 0x1E \<notin> set v)"

fun split_on :: "char \<Rightarrow> string \<Rightarrow> string list" where
  "split_on c [] = [[]]"
| "split_on c (x # xs) =
     (if x = c then [] # split_on c xs
      else (case split_on c xs of [] \<Rightarrow> [[x]] | y # ys \<Rightarrow> (x # y) # ys))"

definition split_pair :: "string \<Rightarrow> string \<times> string" where
  "split_pair r = (takeWhile (\<lambda>c. c \<noteq> CHR 0x00) r, tl (dropWhile (\<lambda>c. c \<noteq> CHR 0x00) r))"

text \<open>A reader of canonical keys: split at the record separator, then at the first null byte.\<close>

definition decode_key :: "BucketKey \<Rightarrow> (string \<times> string) list" where
  "decode_key s = (if s = [] then [] else map split_pair (split_on (CHR 0x1E) s))"

lemma split_on_nonempty [simp]: "split_on c xs \<noteq> []"
  by (induction xs) (auto split: list.splits)

lemma split_on_free: "c \<notin> set xs \<Longrightarrow> split_on c xs = [xs]"
  by (induction xs) auto

lemma split_on_append: "c \<notin> set xs \<Longrightarrow> split_on c (xs @ c # ys) = xs # split_on c ys"
  by (induction xs) (auto split: list.splits)

lemma split_pair_record: "CHR 0x00 \<notin> set k \<Longrightarrow> split_pair (k @ CHR 0x00 # v) = (k, v)"
  unfolding split_pair_def
  by (subst takeWhile_append2, force, subst dropWhile_append2, force) simp

lemma write_pairs_Suc:
  "write_pairs m (Suc i) ks = (if ks = [] then [] else CHR 0x1E # write_pairs m 0 ks)"
proof -
  have "write_pairs m (Suc i) ks = write_pairs m (Suc j) ks" for i j ks
    by (induction ks arbitrary: i j) auto
  then show ?thesis by (cases ks) auto
qed

lemma decode_write_pairs:
  assumes "ks \<noteq> []" and "\<forall>k \<in> set ks. CHR 0x00 \<notin> set k \<and> CHR 0x1E \<notin> set k \<and> CHR 0x1E \<notin> set (get_or [] m k)"
  shows "map split_pair (split_on (CHR 0x1E) (write_pairs m 0 ks)) = map (\<lambda>k. (k, get_or [] m k)) ks"
  using assms
proof (induction ks)
  case (Cons k ks)
  let ?r = "k @ CHR 0x00 # get_or [] m k"
  have free: "CHR 0x1E \<notin> set ?r" and pair: "split_pair ?r = (k, get_or [] m k)"
    using Cons.prems by (auto simp: split_pair_record)
  show ?case
  proof (cases "ks = []")
    case True
    then show ?thesis using free pair by (simp add: split_on_free)
  next
    case False
    then have "write_pairs m 0 (k # ks) = ?r @ CHR 0x1E # write_pairs m 0 ks"
      by (simp add: write_pairs_Suc)
    then show ?thesis using Cons False pair split_on_append [OF free] by simp
  qed
qed simp

lemma write_pairs_Cons_nonempty: "ks \<noteq> [] \<Longrightarrow> write_pairs m i ks \<noteq> []"
  by (cases ks) auto

lemma get_or_in_map: "k \<in> set (keys m) \<Longrightarrow> (k, get_or z m k) \<in> set m"
  by (cases "map_of m k") (auto simp: get_or_def map_of_None_keys dest: map_of_SomeD)

lemma sort_Nil_iff: "sort xs = [] \<longleftrightarrow> xs = []"
  by (metis length_0_conv length_sort)

lemma BucketKeyFromProto_nonempty: "Bucket b \<noteq> [] \<Longrightarrow> BucketKeyFromProto (Some b) \<noteq> []"
  by (simp add: BucketKeyFromProto_def write_pairs_Cons_nonempty sort_Nil_iff)

text \<open>
  C32. Canonical keys can be read back: for a bucket whose keys and values avoid the
  separators, splitting the key at \<open>\x1e\<close> and each record at its first \<open>\x00\<close> returns
  exactly the bucket's entries in ascending key order.
\<close>

theorem decode_BucketKeyFromProto:
  assumes "wf_map (Bucket b)" and "separator_free (Bucket b)"
  shows "decode_key (BucketKeyFromProto (Some b)) =
    map (\<lambda>k. (k, get_or [] (Bucket b) k)) (sort (keys (Bucket b)))"
proof (cases "Bucket b = []")
  case True
  then show ?thesis by (simp add: BucketKeyFromProto_def decode_key_def)
next
  case False
  let ?ks = "sort (keys (Bucket b))"
  have "?ks \<noteq> []"
    using False by (simp add: sort_Nil_iff)
  moreover have "\<forall>k \<in> set ?ks. CHR 0x00 \<notin> set k \<and> CHR 0x1E \<notin> set k
      \<and> CHR 0x1E \<notin> set (get_or [] (Bucket b) k)"
    using assms(2) get_or_in_map [of _ "Bucket b" "[]"]
    unfolding separator_free_def set_sort by blast
  ultimately show ?thesis
    using False BucketKeyFromProto_nonempty [OF False]
    by (simp add: decode_key_def decode_write_pairs BucketKeyFromProto_def)
qed

theorem decode_BucketKeyFromProto_witness:
  "decode_key (BucketKeyFromProto (Some \<lparr>Bucket = [(''name'', ''web''), (''env'', ''prod'')]\<rparr>)) =
    [(''env'', ''prod''), (''name'', ''web'')]"
  using decode_BucketKeyFromProto [of "\<lparr>Bucket = [(''name'', ''web''), (''env'', ''prod'')]\<rparr>"]
  by (simp add: separator_free_def get_or_def sort_key_def)

lemma sort_keys_cong:
  assumes "wf_map m" and "wf_map n" and "map_of m = map_of n"
  shows "sort (keys m) = sort (keys n)"
proof (rule sorted_distinct_set_unique)
  have "set (keys m) = dom (map_of m)" and "set (keys n) = dom (map_of n)"
    by (simp_all add: dom_map_of_conv_image_fst)
  then show "set (sort (keys m)) = set (sort (keys n))"
    using assms(3) by (simp only: set_sort)
qed (use assms in simp_all)

lemma write_pairs_cong: "map_of m = map_of n \<Longrightarrow> write_pairs m i ks = write_pairs n i ks"
  by (induction ks arbitrary: i) (simp_all add: get_or_def)

lemma map_of_Nil_iff: "map_of m = map_of n \<Longrightarrow> m = [] \<longleftrightarrow> n = []"
  by (metis list.exhaust map_of.simps(1) map_of_eq_empty_iff)

text \<open>
  The key does not depend on the iteration order of the Go map: two representations of
  the same map have the same canonical key.
\<close>

theorem BucketKeyFromProto_order_independent:
  assumes "wf_map (Bucket a)" and "wf_map (Bucket b)" and "map_of (Bucket a) = map_of (Bucket b)"
  shows "BucketKeyFromProto (Some a) = BucketKeyFromProto (Some b)"
  using sort_keys_cong [OF assms] write_pairs_cong [OF assms(3)] map_of_Nil_iff [OF assms(3)]
  by (simp add: BucketKeyFromProto_def)

theorem BucketKeyFromProto_order_independent_witness:
  "BucketKeyFromProto (Some \<lparr>Bucket = [(''a'', ''1''), (''b'', ''2'')]\<rparr>) =
   BucketKeyFromProto (Some \<lparr>Bucket = [(''b'', ''2''), (''a'', ''1'')]\<rparr>)"
  by (rule BucketKeyFromProto_order_independent) (auto simp: fun_eq_iff)

lemma decoded_map_of:
  assumes "wf_map m"
  shows "map_of (map (\<lambda>k. (k, get_or [] m k)) (sort (keys m))) = map_of m"
proof (rule ext)
  fix x
  have "x \<in> set (sort (keys m)) \<longleftrightarrow> map_of m x \<noteq> None"
    by (simp only: map_of_None_keys set_sort) simp
  then show "map_of (map (\<lambda>k. (k, get_or [] m k)) (sort (keys m))) x = map_of m x"
    unfolding map_of_map_restrict restrict_map_def get_or_def by (cases "map_of m x") simp_all
qed

lemma decode_canonical:
  assumes "wf_map (Bucket b)" and "separator_free (Bucket b)"
  shows "map_of (decode_key (BucketKeyFromProto (Some b))) = map_of (Bucket b)"
proof (cases "Bucket b = []")
  case True
  then show ?thesis by (simp add: BucketKeyFromProto_def decode_key_def)
next
  case False
  have "\<forall>k \<in> set (sort (keys (Bucket b))). CHR 0x00 \<notin> set k \<and> CHR 0x1E \<notin> set k
      \<and> CHR 0x1E \<notin> set (get_or [] (Bucket b) k)"
    using assms(2) get_or_in_map [of _ "Bucket b" "[]"]
    unfolding separator_free_def set_sort by blast
  then show ?thesis
    using False BucketKeyFromProto_nonempty [OF False] decoded_map_of [OF assms(1)]
    by (simp add: decode_key_def BucketKeyFromProto_def sort_Nil_iff decode_write_pairs)
qed

text \<open>
  Distinct buckets get distinct keys when no key contains \<open>\x00\<close> or \<open>\x1e\<close> and no value
  contains \<open>\x1e\<close>.
\<close>

theorem BucketKeyFromProto_injective:
  assumes "wf_map (Bucket a)" and "separator_free (Bucket a)"
    and "wf_map (Bucket b)" and "separator_free (Bucket b)"
    and "BucketKeyFromProto (Some a) = BucketKeyFromProto (Some b)"
  shows "map_of (Bucket a) = map_of (Bucket b)"
  using decode_canonical [OF assms(1,2)] decode_canonical [OF assms(3,4)] assms(5) by simp

theorem BucketKeyFromProto_injective_witness:
  "map_of (Bucket \<lparr>Bucket = [(''a'', ''1''), (''b'', ''2'')]\<rparr>) =
   map_of (Bucket \<lparr>Bucket = [(''b'', ''2''), (''a'', ''1'')]\<rparr>)"
  by (rule BucketKeyFromProto_injective)
    (simp_all add: separator_free_def BucketKeyFromProto_def get_or_def sort_key_def)

section \<open>Domain-scoped keys\<close>

lemma DomainScopedKey_inject_key [simp]:
  "DomainScopedKey d k = DomainScopedKey d k' \<longleftrightarrow> k = k'"
  by (simp add: DomainScopedKey_def)

lemma inj_DomainScopedKey [simp]: "inj_on (DomainScopedKey d) A"
  by (simp add: inj_on_def)

lemma append_sep_inject:
  "c \<notin> set xs \<Longrightarrow> c \<notin> set ys \<Longrightarrow> xs @ c # us = ys @ c # vs \<longleftrightarrow> xs = ys \<and> us = vs"
proof (induction xs arbitrary: ys)
  case Nil
  then show ?case by (cases ys) auto
next
  case (Cons x xs)
  then show ?case by (cases ys) auto
qed

text \<open>
  Scoped keys separate domains: for non-empty domains without the unit separator \<open>\x1f\<close>,
  a scoped key determines both the domain and the bucket key.
\<close>

theorem DomainScopedKey_injective:
  assumes "d \<noteq> []" and "d' \<noteq> []" and "CHR 0x1F \<notin> set d" and "CHR 0x1F \<notin> set d'"
  shows "DomainScopedKey d k = DomainScopedKey d' k' \<longleftrightarrow> d = d' \<and> k = k'"
  using assms by (simp add: DomainScopedKey_def append_sep_inject)

theorem DomainScopedKey_injective_witness:
  "DomainScopedKey ''api'' ''x'' = DomainScopedKey ''web'' ''x'' \<longleftrightarrow> ''api'' = ''web'' \<and> ''x'' = ''x''"
  by (rule DomainScopedKey_injective) simp_all

section \<open>The interface Storage\<close>

abbreviation no_usage :: UsageState where
  "no_usage \<equiv> \<lparr>Allowed = 0, Denied = 0\<rparr>"

text \<open>
  Go's \<open>Storage\<close> interface with its laws: an absent bucket reads as zero, an update adds to
  one bucket and leaves the others alone, a reset forgets one bucket, \<open>All\<close> agrees with \<open>Get\<close>.
\<close>

datatype storage_op = OpUpdate BucketKey uint64 uint64 | OpReset BucketKey

fun run_ops ::
  "(BucketKey \<Rightarrow> uint64 \<Rightarrow> uint64 \<Rightarrow> 'st \<Rightarrow> 'st) \<Rightarrow> (BucketKey \<Rightarrow> 'st \<Rightarrow> 'st) \<Rightarrow> storage_op list \<Rightarrow> 'st \<Rightarrow> 'st"
where
  "run_ops update reset [] s = s"
| "run_ops update reset (OpUpdate k a d # ops) s = run_ops update reset ops (update k a d s)"
| "run_ops update reset (OpReset k # ops) s = run_ops update reset ops (reset k s)"

text \<open>The updates of one bucket after its last reset, latest first.\<close>

fun updates_of :: "BucketKey \<Rightarrow> storage_op list \<Rightarrow> (uint64 \<times> uint64) list" where
  "updates_of k [] = []"
| "updates_of k (OpUpdate k' a d # ops) = (if k' = k then (a, d) # updates_of k ops else updates_of k ops)"
| "updates_of k (OpReset k' # ops) = (if k' = k then [] else updates_of k ops)"

definition live_updates :: "BucketKey \<Rightarrow> storage_op list \<Rightarrow> (uint64 \<times> uint64) list" where
  "live_updates k ops = updates_of k (rev ops)"

definition tally :: "(uint64 \<times> uint64) list \<Rightarrow> UsageState \<times> bool" where
  "tally us = (\<lparr>Allowed = sum_list (map fst us), Denied = sum_list (map snd us)\<rparr>, us \<noteq> [])"

lemma run_ops_append:
  "run_ops update reset (xs @ ys) s = run_ops update reset ys (run_ops update reset xs s)"
  by (induction update reset xs s rule: run_ops.induct) auto

locale usage_storage =
  fixes get :: "'st \<Rightarrow> BucketKey \<Rightarrow> UsageState \<times> bool"
    and update :: "BucketKey \<Rightarrow> uint64 \<Rightarrow> uint64 \<Rightarrow> 'st \<Rightarrow> 'st"
    and reset :: "BucketKey \<Rightarrow> 'st \<Rightarrow> 'st"
    and all :: "'st \<Rightarrow> (BucketKey, UsageState) gomap"
    and invar :: "'st \<Rightarrow> bool"
  assumes get_absent: "\<not> snd (get s k) \<Longrightarrow> get s k = (no_usage, False)"
    and get_update: "invar s \<Longrightarrow> get (update k a d s) k' =
      (if k' = k
       then (\<lparr>Allowed = Allowed (fst (get s k)) + a, Denied = Denied (fst (get s k)) + d\<rparr>, True)
       else get s k')"
    and get_reset: "invar s \<Longrightarrow> get (reset k s) k' = (if k' = k then (no_usage, False) else get s k')"
    and all_get: "invar s \<Longrightarrow> map_of (all s) k = (if snd (get s k) then Some (fst (get s k)) else None)"
    and invar_update: "invar s \<Longrightarrow> invar (update k a d s)"
    and invar_reset: "invar s \<Longrightarrow> invar (reset k s)"
begin

lemma invar_run: "invar s \<Longrightarrow> invar (run_ops update reset ops s)"
proof (induction ops arbitrary: s)
  case (Cons x ops)
  then show ?case by (cases x) (simp_all add: invar_update invar_reset)
qed simp

lemma get_run:
  assumes "invar s" and "get s k = (no_usage, False)"
  shows "get (run_ops update reset ops s) k = tally (live_updates k ops)"
proof (induction ops rule: rev_induct)
  case Nil
  with assms show ?case by (simp add: live_updates_def tally_def)
next
  case (snoc x ops)
  have "invar (run_ops update reset ops s)"
    using assms(1) by (rule invar_run)
  with snoc show ?case
    by (cases x)
      (auto simp: run_ops_append get_update get_reset live_updates_def tally_def add.commute)
qed

lemma all_run:
  assumes "invar s" and "get s k = (no_usage, False)"
  shows "map_of (all (run_ops update reset ops s)) k =
    (if live_updates k ops = [] then None else Some (fst (tally (live_updates k ops))))"
  using all_get [OF invar_run [OF assms(1)]] get_run [OF assms] by (simp add: tally_def)

end

lemma fold_update_append:
  "wf_map (acc @ xs) \<Longrightarrow> fold (\<lambda>(k, v) m. AList.update k v m) xs acc = acc @ xs"
proof (induction xs arbitrary: acc)
  case (Cons x xs)
  obtain k v where x: "x = (k, v)" by (cases x)
  have "AList.update k v acc = acc @ [x]"
    using Cons.prems x by (simp add: keys_update_new)
  then show ?case using Cons.IH [of "acc @ [x]"] Cons.prems x by simp
qed simp

lemma MemoryStorage_All_wf [simp]: "MemoryStorage_wf s \<Longrightarrow> MemoryStorage_All s = buckets s"
  using fold_update_append [of "[]"] by (simp add: MemoryStorage_All_def MemoryStorage_wf_def)

lemma MemoryStorage_wf_ops [simp]:
  "MemoryStorage_wf s \<Longrightarrow> MemoryStorage_wf (MemoryStorage_Update k a d s)"
  "MemoryStorage_wf s \<Longrightarrow> MemoryStorage_wf (MemoryStorage_Reset k s)"
  "MemoryStorage_wf (MemoryStorage_Clear s)"
  "MemoryStorage_wf NewMemoryStorage"
  by (simp_all add: MemoryStorage_wf_def MemoryStorage_Update_def MemoryStorage_Reset_def
      MemoryStorage_Clear_def NewMemoryStorage_def split: option.split)

interpretation mem: usage_storage
  MemoryStorage_Get MemoryStorage_Update MemoryStorage_Reset MemoryStorage_All MemoryStorage_wf
  by unfold_locales
    (auto simp: MemoryStorage_Get_def MemoryStorage_Update_def MemoryStorage_Reset_def gomap_simps
      MemoryStorage_wf_ops [unfolded MemoryStorage_Update_def MemoryStorage_Reset_def]
      split: option.splits if_splits)

text \<open>
  C22. \<open>MemoryStorage\<close> implements the counter specification: after any sequence of updates and
  resets on a fresh store, \<open>Get\<close> returns for every bucket the sums, modulo $2^{64}$, of the
  amounts reported since its last reset, and whether there was any such report; \<open>All\<close> lists
  exactly these buckets.
\<close>

theorem MemoryStorage_refines_counters:
  "MemoryStorage_Get (run_ops MemoryStorage_Update MemoryStorage_Reset ops NewMemoryStorage) k =
     tally (live_updates k ops)
   \<and> map_of (MemoryStorage_All (run_ops MemoryStorage_Update MemoryStorage_Reset ops NewMemoryStorage)) k =
     (if live_updates k ops = [] then None else Some (fst (tally (live_updates k ops))))"
proof -
  have "MemoryStorage_Get NewMemoryStorage k = (no_usage, False)"
    by (simp add: MemoryStorage_Get_def NewMemoryStorage_def)
  then show ?thesis
    using mem.get_run [of NewMemoryStorage k ops] mem.all_run [of NewMemoryStorage k ops] by simp
qed

section \<open>The interface BucketStore\<close>

definition add_usage :: "UsageReport \<Rightarrow> UsageState option \<Rightarrow> UsageState" where
  "add_usage r u =
     (case u of
        None \<Rightarrow> \<lparr>Allowed = NumRequestsAllowed r, Denied = NumRequestsDenied r\<rparr>
      | Some v \<Rightarrow> \<lparr>Allowed = Allowed v + NumRequestsAllowed r, Denied = Denied v + NumRequestsDenied r\<rparr>)"

text \<open>Stores whose methods never return an error: callers are never failed by the store.\<close>

locale fail_open_store =
  fixes ops :: "'st BucketStore"
  assumes RecordUsage_ok: "snd (RecordUsage ops ctx d r st) = None"
    and RemoveBucket_ok: "snd (RemoveBucket ops ctx d k st) = None"
begin

lemma RecordUsage_fst: "RecordUsage ops ctx d r st = (st', e) \<longleftrightarrow>
    st' = fst (RecordUsage ops ctx d r st) \<and> e = None"
  using RecordUsage_ok [of ctx d r st] by (cases "RecordUsage ops ctx d r st") auto

lemma RemoveBucket_fst: "RemoveBucket ops ctx d k st = (st', e) \<longleftrightarrow>
    st' = fst (RemoveBucket ops ctx d k st) \<and> e = None"
  using RemoveBucket_ok [of ctx d k st] by (cases "RemoveBucket ops ctx d k st") auto

end

text \<open>Stores that keep exact per-bucket usage under domain-scoped keys.\<close>

locale bucket_store = fail_open_store ops
  for ops :: "'st BucketStore" +
  fixes usage :: "'st \<Rightarrow> BucketKey \<Rightarrow> UsageState option"
  assumes usage_RecordUsage: "usage (fst (RecordUsage ops ctx d r st)) k =
      (if k = report_key d r then Some (add_usage r (usage st k)) else usage st k)"
    and usage_RemoveBucket: "usage (fst (RemoveBucket ops ctx d key st)) k =
      (if k = DomainScopedKey d key then None else usage st k)"
begin

lemma tracked_RecordUsage: "usage (fst (RecordUsage ops ctx d r st)) k \<noteq> None \<longleftrightarrow>
    k = report_key d r \<or> usage st k \<noteq> None"
  by (simp add: usage_RecordUsage)

lemma tracked_RemoveBucket: "usage (fst (RemoveBucket ops ctx d key st)) k \<noteq> None \<longleftrightarrow>
    k \<noteq> DomainScopedKey d key \<and> usage st k \<noteq> None"
  by (simp add: usage_RemoveBucket)

end

definition memory_usage :: "MemoryStorage \<Rightarrow> BucketKey \<Rightarrow> UsageState option" where
  "memory_usage s k = map_of (buckets s) k"

interpretation memory: bucket_store MemoryStorage_store memory_usage
  by unfold_locales
    (auto simp: MemoryStorage_store_def MemoryStorage_RecordUsage_def MemoryStorage_RemoveBucket_def
      MemoryStorage_Update_def MemoryStorage_Reset_def memory_usage_def add_usage_def gomap_simps
      Let_def split: option.splits)

text \<open>Properties of a store's state that its two methods keep.\<close>

locale store_invariant =
  fixes ops :: "'st BucketStore" and P :: "'st \<Rightarrow> bool"
  assumes P_RecordUsage: "P st \<Longrightarrow> P (fst (RecordUsage ops ctx d r st))"
    and P_RemoveBucket: "P st \<Longrightarrow> P (fst (RemoveBucket ops ctx d k st))"

interpretation memory_wf: store_invariant MemoryStorage_store MemoryStorage_wf
  by unfold_locales
    (simp_all add: MemoryStorage_store_def MemoryStorage_RecordUsage_def MemoryStorage_RemoveBucket_def Let_def)

end
