(* ===== verification/Redis.thy ===== *)
theory Redis
  imports Storage
begin

text \<open>
  The Redis-backed store with its circuit breaker (\<open>src/internal/storage/redis.go\<close>). The
  go-redis client and the Redis server behind it are a parameter: a record of the calls the
  source makes, acting on an outside world of type \<open>'w\<close> that also carries the clock. What the
  theorems rely on of Redis (a pipeline without error has applied its increments, a \<open>DEL\<close>
  without error has removed the key, an unreachable server applies nothing) are the named
  hypotheses \<open>exec_applies\<close>, \<open>del_removes\<close> and \<open>exec_failure_clean\<close>; what they rely on of a
  closed client (it refuses every command) is \<open>closed_refuses\<close>.
\<close>

section \<open>The client and the storage\<close>

datatype redis_cmd = HIncrBy string string int | Expire string duration

record 'w redis_client =
  Exec :: "go_context \<Rightarrow> redis_cmd list \<Rightarrow> 'w \<Rightarrow> 'w \<times> go_error option"
  Del :: "go_context \<Rightarrow> string \<Rightarrow> 'w \<Rightarrow> 'w \<times> go_error option"
  ClientClose :: "'w \<Rightarrow> 'w \<times> go_error option"
  Now :: "'w \<Rightarrow> int"

record RedisConfig =
  Addr :: string
  PoolSize :: int
  KeyTTL :: duration
  MaxFallbackKeys :: int

record redis_options =
  OptAddr :: string
  OptPoolSize :: int

record RedisStorage =
  client :: redis_options
  fallback :: MemoryStorage
  keyTTL :: duration
  maxFallbackKeys :: int
  tripped :: bool
  lastAttempt :: int
  retryInterval :: duration

definition fieldAllowed :: string where "fieldAllowed = ''allowed''"

definition fieldDenied :: string where "fieldDenied = ''denied''"

definition defaultRetryInterval :: duration where "defaultRetryInterval = 5 * Second"

definition defaultKeyTTL :: duration where "defaultKeyTTL = 60 * Second"

definition defaultMaxFallback :: int where "defaultMaxFallback = 10000"

definition NewRedisStorage :: "RedisConfig \<Rightarrow> RedisStorage" where
  "NewRedisStorage cfg =
     (let poolSize = (if PoolSize cfg \<le> 0 then 10 else PoolSize cfg);
          ttl = (if sint (KeyTTL cfg) \<le> 0 then defaultKeyTTL else KeyTTL cfg);
          maxFallback = (if MaxFallbackKeys cfg \<le> 0 then defaultMaxFallback else MaxFallbackKeys cfg)
      in \<lparr>client = \<lparr>OptAddr = Addr cfg, OptPoolSize = poolSize\<rparr>,
          fallback = NewMemoryStorage,
          keyTTL = ttl,
          maxFallbackKeys = maxFallback,
          tripped = False,
          lastAttempt = 0,
          retryInterval = defaultRetryInterval\<rparr>)"

section \<open>The circuit breaker\<close>

definition isTripped :: "RedisStorage \<Rightarrow> bool" where
  "isTripped s = tripped s"

definition trip :: "'w redis_client \<Rightarrow> 'w \<Rightarrow> RedisStorage \<Rightarrow> RedisStorage" where
  "trip c w s = s\<lparr>tripped := True, lastAttempt := Now c w\<rparr>"

definition shouldRetry :: "'w redis_client \<Rightarrow> 'w \<Rightarrow> RedisStorage \<Rightarrow> bool" where
  "shouldRetry c w s \<longleftrightarrow> Now c w - lastAttempt s \<ge> sint (retryInterval s)"

text \<open>The conversion \<open>int64(x)\<close> of a \<open>uint64\<close> keeps the bits: \<^const>\<open>sint\<close>.\<close>

definition record_cmds :: "RedisStorage \<Rightarrow> string \<Rightarrow> UsageReport \<Rightarrow> redis_cmd list" where
  "record_cmds s key report =
     [HIncrBy key fieldAllowed (sint (NumRequestsAllowed report)),
      HIncrBy key fieldDenied (sint (NumRequestsDenied report)),
      Expire key (keyTTL s)]"

definition tryRedisRecordUsage ::
  "'w redis_client \<Rightarrow> go_context \<Rightarrow> string \<Rightarrow> UsageReport \<Rightarrow> RedisStorage \<Rightarrow> 'w \<Rightarrow> 'w \<times> go_error option" where
  "tryRedisRecordUsage c ctx key report s w = Exec c ctx (record_cmds s key report) w"

definition flush_entry :: "RedisStorage \<Rightarrow> BucketKey \<times> UsageState \<Rightarrow> redis_cmd list" where
  "flush_entry s e =
     (case e of (k, state) \<Rightarrow>
        (if Allowed state > 0 then [HIncrBy k fieldAllowed (sint (Allowed state))] else [])
      @ (if Denied state > 0 then [HIncrBy k fieldDenied (sint (Denied state))] else [])
      @ [Expire k (keyTTL s)])"

definition flush_cmds :: "RedisStorage \<Rightarrow> redis_cmd list" where
  "flush_cmds s = concat (map (flush_entry s) (MemoryStorage_All (fallback s)))"

definition flushFallback ::
  "'w redis_client \<Rightarrow> go_context \<Rightarrow> RedisStorage \<times> 'w \<Rightarrow> RedisStorage \<times> 'w" where
  "flushFallback c ctx st =
     (case st of (s, w) \<Rightarrow>
        if length (MemoryStorage_All (fallback s)) = 0 then (s, w)
        else (case Exec c ctx (flush_cmds s) w of
                (w', err) \<Rightarrow> (s\<lparr>fallback := MemoryStorage_Clear (fallback s)\<rparr>, w')))"

definition recoverFromFallback ::
  "'w redis_client \<Rightarrow> go_context \<Rightarrow> RedisStorage \<times> 'w \<Rightarrow> RedisStorage \<times> 'w" where
  "recoverFromFallback c ctx st =
     (case flushFallback c ctx st of (s, w) \<Rightarrow> (s\<lparr>tripped := False\<rparr>, w))"

text \<open>The capacity check: only reports that would create a new fallback entry are dropped.\<close>

definition at_capacity :: "string \<Rightarrow> RedisStorage \<Rightarrow> bool" where
  "at_capacity scopedKey s \<longleftrightarrow>
     maxFallbackKeys s > 0 \<and> int (MemoryStorage_Len (fallback s)) \<ge> maxFallbackKeys s
     \<and> \<not> snd (MemoryStorage_Get (fallback s) scopedKey)"

definition fallback_record ::
  "go_context \<Rightarrow> string \<Rightarrow> UsageReport \<Rightarrow> RedisStorage \<Rightarrow> RedisStorage \<times> go_error option" where
  "fallback_record ctx domain report s =
     (case MemoryStorage_RecordUsage ctx domain report (fallback s) of
        (m, err) \<Rightarrow> (s\<lparr>fallback := m\<rparr>, err))"

definition fallback_remove ::
  "go_context \<Rightarrow> string \<Rightarrow> BucketKey \<Rightarrow> RedisStorage \<Rightarrow> RedisStorage \<times> go_error option" where
  "fallback_remove ctx domain key s =
     (case MemoryStorage_RemoveBucket ctx domain key (fallback s) of
        (m, err) \<Rightarrow> (s\<lparr>fallback := m\<rparr>, err))"

definition tripped_record ::
  "go_context \<Rightarrow> string \<Rightarrow> UsageReport \<Rightarrow> RedisStorage \<Rightarrow> RedisStorage \<times> go_error option" where
  "tripped_record ctx domain report s =
     (if at_capacity (report_key domain report) s then (s, None)
      else fallback_record ctx domain report s)"

definition RedisStorage_RecordUsage ::
  "'w redis_client \<Rightarrow> go_context \<Rightarrow> string \<Rightarrow> UsageReport \<Rightarrow> RedisStorage \<times> 'w
    \<Rightarrow> (RedisStorage \<times> 'w) \<times> go_error option" where
  "RedisStorage_RecordUsage c ctx domain report st =
     (case st of (s, w) \<Rightarrow>
        let key = BucketKeyFromProto (ReportBucketId report);
            scopedKey = DomainScopedKey domain key
        in if isTripped s then
             (if shouldRetry c w s then
                (case tryRedisRecordUsage c ctx scopedKey report s w of
                   (w', None) \<Rightarrow> (recoverFromFallback c ctx (s, w'), None)
                 | (w', Some e) \<Rightarrow>
                     (case tripped_record ctx domain report s of (s', err) \<Rightarrow> ((s', w'), err)))
              else (case tripped_record ctx domain report s of (s', err) \<Rightarrow> ((s', w), err)))
           else
             (case tryRedisRecordUsage c ctx scopedKey report s w of
                (w', None) \<Rightarrow> ((s, w'), None)
              | (w', Some e) \<Rightarrow>
                  (case fallback_record ctx domain report (trip c w' s) of (s', err) \<Rightarrow> ((s', w'), err))))"

definition RedisStorage_RemoveBucket ::
  "'w redis_client \<Rightarrow> go_context \<Rightarrow> string \<Rightarrow> BucketKey \<Rightarrow> RedisStorage \<times> 'w
    \<Rightarrow> (RedisStorage \<times> 'w) \<times> go_error option" where
  "RedisStorage_RemoveBucket c ctx domain key st =
     (case st of (s, w) \<Rightarrow>
        let scopedKey = DomainScopedKey domain key
        in if isTripped s then
             (if shouldRetry c w s then
                (case Del c ctx scopedKey w of
                   (w', None) \<Rightarrow> (recoverFromFallback c ctx (s, w'), None)
                 | (w', Some e) \<Rightarrow>
                     (case fallback_remove ctx domain key s of (s', err) \<Rightarrow> ((s', w'), err)))
              else (case fallback_remove ctx domain key s of (s', err) \<Rightarrow> ((s', w), err)))
           else
             (case Del c ctx scopedKey w of
                (w', None) \<Rightarrow> ((s, w'), None)
              | (w', Some e) \<Rightarrow>
                  (case fallback_remove ctx domain key (trip c w' s) of (s', err) \<Rightarrow> ((s', w'), err))))"

definition RedisStorage_Close :: "'w redis_client \<Rightarrow> RedisStorage \<times> 'w \<Rightarrow> (RedisStorage \<times> 'w) \<times> go_error option" where
  "RedisStorage_Close c st = (case st of (s, w) \<Rightarrow> (case ClientClose c w of (w', err) \<Rightarrow> ((s, w'), err)))"

definition RedisStorage_store :: "'w redis_client \<Rightarrow> (RedisStorage \<times> 'w) BucketStore" where
  "RedisStorage_store c =
     \<lparr>RecordUsage = RedisStorage_RecordUsage c, RemoveBucket = RedisStorage_RemoveBucket c\<rparr>"

lemmas redis_defs =
  RedisStorage_RecordUsage_def RedisStorage_RemoveBucket_def fallback_record_def fallback_remove_def
  tripped_record_def recoverFromFallback_def flushFallback_def tryRedisRecordUsage_def trip_def
  isTripped_def

section \<open>Fail-open behaviour\<close>

lemma MemoryStorage_no_error [simp]:
  "snd (MemoryStorage_RecordUsage ctx d r m) = None"
  "snd (MemoryStorage_RemoveBucket ctx d k m) = None"
  by (simp_all add: MemoryStorage_RecordUsage_def MemoryStorage_RemoveBucket_def Let_def)

lemma fallback_ops_eq:
  "fallback_record ctx d r s = (s\<lparr>fallback := fst (MemoryStorage_RecordUsage ctx d r (fallback s))\<rparr>, None)"
  "fallback_remove ctx d k s = (s\<lparr>fallback := fst (MemoryStorage_RemoveBucket ctx d k (fallback s))\<rparr>, None)"
  by (simp_all add: fallback_record_def fallback_remove_def split_beta)

lemma tripped_record_eq:
  "tripped_record ctx d r s =
    (if at_capacity (report_key d r) s then s
     else s\<lparr>fallback := fst (MemoryStorage_RecordUsage ctx d r (fallback s))\<rparr>, None)"
  by (simp add: tripped_record_def fallback_ops_eq)

interpretation redis: fail_open_store "RedisStorage_store c" for c :: "'w redis_client"
  by unfold_locales
    (auto simp: RedisStorage_store_def RedisStorage_RecordUsage_def RedisStorage_RemoveBucket_def
      fallback_ops_eq tripped_record_eq Let_def split: prod.splits option.splits)

section \<open>The breaker invariant\<close>

text \<open>
  While the breaker is closed the fallback holds nothing; while it is open the fallback never
  exceeds its capacity; the TTL sent with every write is positive.
\<close>

definition breaker_inv :: "RedisStorage \<Rightarrow> bool" where
  "breaker_inv s \<longleftrightarrow>
     MemoryStorage_wf (fallback s)
     \<and> (\<not> tripped s \<longrightarrow> buckets (fallback s) = [])
     \<and> int (MemoryStorage_Len (fallback s)) \<le> maxFallbackKeys s
     \<and> 0 < maxFallbackKeys s
     \<and> 0 < sint (keyTTL s)"

lemma Len_Update:
  "MemoryStorage_Len (MemoryStorage_Update k a d m) =
    (if snd (MemoryStorage_Get m k) then MemoryStorage_Len m else Suc (MemoryStorage_Len m))"
proof -
  have "k \<in> set (keys (buckets m)) \<longleftrightarrow> map_of (buckets m) k \<noteq> None"
    by (simp add: map_of_None_keys)
  then show ?thesis
    by (cases "map_of (buckets m) k")
      (simp_all add: MemoryStorage_Len_def MemoryStorage_Update_def MemoryStorage_Get_def length_update)
qed

lemma Len_Reset: "MemoryStorage_Len (MemoryStorage_Reset k m) \<le> MemoryStorage_Len m"
  by (simp add: MemoryStorage_Len_def MemoryStorage_Reset_def length_delete)

lemma MemoryStorage_RecordUsage_fst:
  "fst (MemoryStorage_RecordUsage ctx d r m) =
    MemoryStorage_Update (report_key d r) (NumRequestsAllowed r) (NumRequestsDenied r) m"
  by (simp add: MemoryStorage_RecordUsage_def Let_def)

lemma MemoryStorage_RemoveBucket_fst:
  "fst (MemoryStorage_RemoveBucket ctx d k m) = MemoryStorage_Reset (DomainScopedKey d k) m"
  by (simp add: MemoryStorage_RemoveBucket_def Let_def)

lemma Reset_empty: "buckets m = [] \<Longrightarrow> buckets (MemoryStorage_Reset k m) = []"
  by (simp add: MemoryStorage_Reset_def)

lemma breaker_inv_fallback_record:
  assumes "breaker_inv s" and "tripped s'" and "fallback s' = fallback s"
    and "maxFallbackKeys s' = maxFallbackKeys s" and "keyTTL s' = keyTTL s"
    and "\<not> at_capacity (report_key d r) s"
  shows "breaker_inv (fst (fallback_record ctx d r s'))"
  using assms
  by (auto simp: breaker_inv_def fallback_ops_eq MemoryStorage_RecordUsage_fst Len_Update at_capacity_def)

lemma breaker_inv_tripped_record:
  "breaker_inv s \<Longrightarrow> tripped s \<Longrightarrow> breaker_inv (fst (tripped_record ctx d r s))"
  by (simp add: tripped_record_def breaker_inv_fallback_record)

lemma breaker_inv_fallback_remove:
  "breaker_inv s \<Longrightarrow> breaker_inv (fst (fallback_remove ctx d k s))"
  using Len_Reset [of "DomainScopedKey d k" "fallback s"]
  by (auto simp: breaker_inv_def fallback_ops_eq MemoryStorage_RemoveBucket_fst Reset_empty)

lemma recover_storage:
  assumes "breaker_inv s"
  shows "fst (recoverFromFallback c ctx (s, w)) = s\<lparr>fallback := \<lparr>buckets = []\<rparr>, tripped := False\<rparr>"
  using assms
  by (auto simp: recoverFromFallback_def flushFallback_def MemoryStorage_Clear_def breaker_inv_def
      split: prod.splits)

lemma breaker_inv_recover:
  "breaker_inv s \<Longrightarrow> breaker_inv (fst (recoverFromFallback c ctx (s, w)))"
  unfolding recover_storage by (simp add: breaker_inv_def MemoryStorage_wf_def MemoryStorage_Len_def)

lemma closed_not_at_capacity: "breaker_inv s \<Longrightarrow> \<not> tripped s \<Longrightarrow> \<not> at_capacity k s"
  by (simp add: breaker_inv_def at_capacity_def MemoryStorage_Len_def)

lemma breaker_inv_trip: "breaker_inv s \<Longrightarrow> breaker_inv (trip c w s)"
  by (simp add: breaker_inv_def trip_def)

lemma breaker_inv_RecordUsage:
  assumes "breaker_inv s"
  shows "breaker_inv (fst (fst (RedisStorage_RecordUsage c ctx d r (s, w))))"
proof (cases "tripped s")
  case True
  with assms show ?thesis
    by (simp add: RedisStorage_RecordUsage_def isTripped_def Let_def split_beta
        breaker_inv_tripped_record breaker_inv_recover split: prod.split option.split)
next
  case False
  have "breaker_inv (fst (fallback_record ctx d r (trip c w' s)))" for w'
    using assms closed_not_at_capacity [OF assms False]
    by (intro breaker_inv_fallback_record [OF assms]) (simp_all add: trip_def)
  with assms False show ?thesis
    by (simp add: RedisStorage_RecordUsage_def isTripped_def Let_def split_beta
        split: prod.split option.split)
qed

lemma breaker_inv_RemoveBucket:
  "breaker_inv s \<Longrightarrow> breaker_inv (fst (fst (RedisStorage_RemoveBucket c ctx d k (s, w))))"
  by (simp add: RedisStorage_RemoveBucket_def isTripped_def Let_def split_beta
      breaker_inv_fallback_remove breaker_inv_recover breaker_inv_trip split: prod.split option.split)

lemma sint_defaults: "sint defaultKeyTTL = 60000000000" "sint defaultRetryInterval = 5000000000"
  by (simp_all add: defaultKeyTTL_def defaultRetryInterval_def Second_def)

lemma breaker_inv_New: "breaker_inv (NewRedisStorage cfg)"
  by (simp add: breaker_inv_def NewRedisStorage_def Let_def NewMemoryStorage_def MemoryStorage_wf_def
      MemoryStorage_Len_def defaultMaxFallback_def sint_defaults)

interpretation redis_breaker: store_invariant "RedisStorage_store c" "\<lambda>st. breaker_inv (fst st)"
  for c :: "'w redis_client"
proof unfold_locales
  fix st :: "RedisStorage \<times> 'w" and ctx d r k
  assume "breaker_inv (fst st)"
  then show "breaker_inv (fst (fst (RecordUsage (RedisStorage_store c) ctx d r st)))"
    and "breaker_inv (fst (fst (RemoveBucket (RedisStorage_store c) ctx d k st)))"
    by (cases st, simp add: RedisStorage_store_def breaker_inv_RecordUsage breaker_inv_RemoveBucket)+
qed

text \<open>Runs of a store against any client, with arbitrary changes of the outside world in between.\<close>

inductive redis_reachable :: "'w redis_client \<Rightarrow> RedisConfig \<Rightarrow> RedisStorage \<times> 'w \<Rightarrow> bool"
  for c :: "'w redis_client" and cfg :: RedisConfig where
  start: "redis_reachable c cfg (NewRedisStorage cfg, w)"
| record_usage: "redis_reachable c cfg st \<Longrightarrow>
    redis_reachable c cfg (fst (RedisStorage_RecordUsage c ctx d r st))"
| remove_bucket: "redis_reachable c cfg st \<Longrightarrow>
    redis_reachable c cfg (fst (RedisStorage_RemoveBucket c ctx d k st))"
| outside: "redis_reachable c cfg (s, w) \<Longrightarrow> redis_reachable c cfg (s, w')"

text \<open>
  Circuit breaker safety. For every client behaviour and every sequence of calls, a
  closed breaker has an empty fallback, the fallback never holds more than
  \<open>maxFallbackKeys\<close> buckets, and capacity and TTL are positive whatever the configuration.
\<close>

theorem redis_breaker_invariant:
  assumes "redis_reachable c cfg st"
  shows "breaker_inv (fst st)"
  using assms
proof (induction rule: redis_reachable.induct)
  case (record_usage st ctx d r)
  then show ?case by (cases st) (simp add: breaker_inv_RecordUsage)
next
  case (remove_bucket st ctx d k)
  then show ?case by (cases st) (simp add: breaker_inv_RemoveBucket)
qed (simp_all add: breaker_inv_New)

section \<open>What the code relies on of Redis\<close>

text \<open>The hash counters a pipeline leaves behind: \<open>HINCRBY\<close> adds to one field of one key.\<close>

fun apply_cmd :: "redis_cmd \<Rightarrow> (string \<Rightarrow> string \<Rightarrow> int) \<Rightarrow> string \<Rightarrow> string \<Rightarrow> int" where
  "apply_cmd (HIncrBy k f n) cnt = cnt(k := (cnt k)(f := cnt k f + n))"
| "apply_cmd (Expire k d) cnt = cnt"

definition exec_applies :: "'w redis_client \<Rightarrow> ('w \<Rightarrow> string \<Rightarrow> string \<Rightarrow> int) \<Rightarrow> bool" where
  "exec_applies c counters \<longleftrightarrow>
     (\<forall>ctx cmds w w'. Exec c ctx cmds w = (w', None) \<longrightarrow> counters w' = fold apply_cmd cmds (counters w))"

definition exec_failure_clean :: "'w redis_client \<Rightarrow> ('w \<Rightarrow> string \<Rightarrow> string \<Rightarrow> int) \<Rightarrow> bool" where
  "exec_failure_clean c counters \<longleftrightarrow>
     (\<forall>ctx cmds w w' e. Exec c ctx cmds w = (w', Some e) \<longrightarrow> counters w' = counters w)"

definition del_removes :: "'w redis_client \<Rightarrow> ('w \<Rightarrow> string \<Rightarrow> string \<Rightarrow> int) \<Rightarrow> bool" where
  "del_removes c counters \<longleftrightarrow>
     (\<forall>ctx k w w'. Del c ctx k w = (w', None) \<longrightarrow> counters w' = (counters w)(k := (\<lambda>_. 0)))"

text \<open>A Redis that is either reachable or not, with a clock: an instance of these hypotheses.\<close>

record sim_world =
  sim_hash :: "string \<Rightarrow> string \<Rightarrow> int"
  sim_up :: bool
  sim_clock :: int

definition sim_client :: "sim_world redis_client" where
  "sim_client =
     \<lparr>Exec = (\<lambda>ctx cmds w. if sim_up w then (w\<lparr>sim_hash := fold apply_cmd cmds (sim_hash w)\<rparr>, None)
                           else (w, Some ''connection refused'')),
      Del = (\<lambda>ctx k w. if sim_up w then (w\<lparr>sim_hash := (sim_hash w)(k := (\<lambda>_. 0))\<rparr>, None)
                       else (w, Some ''connection refused'')),
      ClientClose = (\<lambda>w. (w\<lparr>sim_up := False\<rparr>, None)),
      Now = sim_clock\<rparr>"

lemma sim_client_hyps:
  "exec_applies sim_client sim_hash" "exec_failure_clean sim_client sim_hash" "del_removes sim_client sim_hash"
  by (auto simp: exec_applies_def exec_failure_clean_def del_removes_def sim_client_def split: if_splits)

theorem redis_breaker_invariant_witness:
  "breaker_inv (fst (fst (RedisStorage_RecordUsage sim_client Background ''d''
     \<lparr>ReportBucketId = None, NumRequestsAllowed = 1, NumRequestsDenied = 0, TimeElapsed = 0\<rparr>
     (NewRedisStorage \<lparr>Addr = ''redis:6379'', PoolSize = 0, KeyTTL = 0, MaxFallbackKeys = 0\<rparr>,
      \<lparr>sim_hash = (\<lambda>_ _. 0), sim_up = False, sim_clock = 7\<rparr>))))"
  by (rule redis_breaker_invariant [OF redis_reachable.record_usage [OF redis_reachable.start]])

section \<open>Usage is conserved across outages\<close>

definition field_amount :: "string \<Rightarrow> UsageState \<Rightarrow> uint64" where
  "field_amount f u = (if f = fieldAllowed then Allowed u else if f = fieldDenied then Denied u else 0)"

definition report_amount :: "UsageReport \<Rightarrow> string \<Rightarrow> uint64" where
  "report_amount r f = field_amount f \<lparr>Allowed = NumRequestsAllowed r, Denied = NumRequestsDenied r\<rparr>"

definition fallback_amount :: "RedisStorage \<Rightarrow> BucketKey \<Rightarrow> string \<Rightarrow> uint64" where
  "fallback_amount s k f = (case map_of (buckets (fallback s)) k of None \<Rightarrow> 0 | Some u \<Rightarrow> field_amount f u)"

text \<open>The usage of a bucket known to Redis and to the fallback together, modulo $2^{64}$.\<close>

definition total_usage ::
  "('w \<Rightarrow> string \<Rightarrow> string \<Rightarrow> int) \<Rightarrow> RedisStorage \<times> 'w \<Rightarrow> BucketKey \<Rightarrow> string \<Rightarrow> uint64" where
  "total_usage counters st k f = word_of_int (counters (snd st) k f) + fallback_amount (fst st) k f"

fun increments :: "string \<Rightarrow> string \<Rightarrow> redis_cmd list \<Rightarrow> int" where
  "increments k f [] = 0"
| "increments k f (HIncrBy k' f' n # cmds) = (if k' = k \<and> f' = f then n else 0) + increments k f cmds"
| "increments k f (Expire k' d # cmds) = increments k f cmds"

lemma fields_distinct [simp]: "fieldAllowed \<noteq> fieldDenied" "fieldDenied \<noteq> fieldAllowed"
  by (simp_all add: fieldAllowed_def fieldDenied_def)

lemma increments_append [simp]: "increments k f (xs @ ys) = increments k f xs + increments k f ys"
  by (induction k f xs rule: increments.induct) auto

lemma fold_apply_cmd: "fold apply_cmd cmds cnt k f = cnt k f + increments k f cmds"
  by (induction k f cmds arbitrary: cnt rule: increments.induct) auto

lemma increments_flush_entry:
  "increments k f (flush_entry s (k', u)) = (if k' = k then sint (field_amount f u) else 0)"
  by (auto simp: flush_entry_def field_amount_def word_gt_0)

lemma increments_flush:
  "wf_map xs \<Longrightarrow> increments k f (concat (map (flush_entry s) xs)) =
    (case map_of xs k of None \<Rightarrow> 0 | Some u \<Rightarrow> sint (field_amount f u))"
proof (induction xs)
  case (Cons x xs)
  obtain k' u where x: "x = (k', u)" by (cases x)
  have "map_of xs k' = None"
    using Cons.prems x by (simp add: map_of_None_keys)
  with Cons x show ?case by (auto simp: increments_flush_entry)
qed simp

lemma increments_flush_cmds:
  "MemoryStorage_wf (fallback s) \<Longrightarrow> increments k f (flush_cmds s) = sint (fallback_amount s k f)"
  by (simp add: flush_cmds_def increments_flush MemoryStorage_wf_def [symmetric] fallback_amount_def
      split: option.split)

lemma increments_record_cmds:
  "increments k f (record_cmds s key r) = (if key = k then sint (report_amount r f) else 0)"
  by (simp add: record_cmds_def report_amount_def field_amount_def)

lemma fallback_amount_record:
  "fallback_amount (s\<lparr>fallback := fst (MemoryStorage_RecordUsage ctx d r (fallback s))\<rparr>) k f =
    fallback_amount s k f + (if k = report_key d r then report_amount r f else 0)"
  by (auto simp: fallback_amount_def report_amount_def field_amount_def MemoryStorage_RecordUsage_fst
      MemoryStorage_Update_def gomap_simps split: option.splits)

lemma recover_total:
  assumes "exec_applies c counters" and "breaker_inv s" and "snd (Exec c ctx (flush_cmds s) w) = None"
  shows "total_usage counters (recoverFromFallback c ctx (s, w)) k f = total_usage counters (s, w) k f"
proof (cases "buckets (fallback s) = []")
  case True
  with assms(2) show ?thesis
    by (simp add: recoverFromFallback_def flushFallback_def breaker_inv_def total_usage_def fallback_amount_def)
next
  case False
  obtain w' where w': "Exec c ctx (flush_cmds s) w = (w', None)"
    using assms(3) by (cases "Exec c ctx (flush_cmds s) w") simp
  have wf: "MemoryStorage_wf (fallback s)"
    using assms(2) by (simp add: breaker_inv_def)
  have "counters w' k f = counters w k f + sint (fallback_amount s k f)"
    using assms(1) w' by (simp add: exec_applies_def fold_apply_cmd increments_flush_cmds [OF wf])
  then show ?thesis
    using False wf w' by (simp add: recoverFromFallback_def flushFallback_def total_usage_def
        fallback_amount_def MemoryStorage_Clear_def)
qed

lemma record_exec_total:
  assumes "exec_applies c counters" and "Exec c ctx (record_cmds s (report_key d r) r) w = (w', None)"
  shows "total_usage counters (s, w') k f =
    total_usage counters (s, w) k f + (if k = report_key d r then report_amount r f else 0)"
proof -
  have "counters w' k f = counters w k f + (if report_key d r = k then sint (report_amount r f) else 0)"
    using assms by (simp add: exec_applies_def fold_apply_cmd increments_record_cmds)
  then show ?thesis by (simp add: total_usage_def)
qed

lemma fallback_record_total:
  assumes "counters w' = counters w" and "fallback s' = fallback s"
  shows "total_usage counters (fst (fallback_record ctx d r s'), w') k f =
    total_usage counters (s, w) k f + (if k = report_key d r then report_amount r f else 0)"
proof -
  have "fallback_amount s' k f = fallback_amount s k f"
    using assms(2) by (simp add: fallback_amount_def)
  then show ?thesis
    using fallback_amount_record [where s = s' and ctx = ctx and d = d and r = r and k = k and f = f] assms
    by (simp add: total_usage_def fallback_ops_eq)
qed


abbreviation sim_report :: UsageReport where
  "sim_report \<equiv> \<lparr>ReportBucketId = Some \<lparr>Bucket = [(''n'', ''w'')]\<rparr>, NumRequestsAllowed = 5,
     NumRequestsDenied = 2, TimeElapsed = 0\<rparr>"

abbreviation sim_storage :: RedisStorage where
  "sim_storage \<equiv> NewRedisStorage \<lparr>Addr = ''redis:6379'', PoolSize = 0, KeyTTL = 0, MaxFallbackKeys = 0\<rparr>"

abbreviation sim_tripped :: RedisStorage where
  "sim_tripped \<equiv> sim_storage\<lparr>tripped := True,
     fallback := \<lparr>buckets = [(report_key ''d'' sim_report, \<lparr>Allowed = 30, Denied = 3\<rparr>)]\<rparr>\<rparr>"

abbreviation sim_start :: "bool \<Rightarrow> int \<Rightarrow> sim_world" where
  "sim_start up t \<equiv> \<lparr>sim_hash = (\<lambda>_ _. 0), sim_up = up, sim_clock = t\<rparr>"

lemma breaker_inv_sim_tripped: "breaker_inv sim_tripped"
  by (simp add: breaker_inv_def NewRedisStorage_def Let_def MemoryStorage_wf_def MemoryStorage_Len_def
      defaultMaxFallback_def sint_defaults)


section \<open>Recovery, retries and removal\<close>



text \<open>
  Removal with a closed breaker: when \<open>DEL\<close> succeeds the bucket's usage is gone, every
  other bucket is unchanged and the breaker stays closed.
\<close>

theorem RemoveBucket_removes:
  assumes "del_removes c counters" and "breaker_inv s" and "\<not> tripped s"
    and "Del c ctx (DomainScopedKey d key) w = (w', None)"
  shows "fst (fst (RedisStorage_RemoveBucket c ctx d key (s, w))) = s
    \<and> total_usage counters (fst (RedisStorage_RemoveBucket c ctx d key (s, w))) k f =
      (if k = DomainScopedKey d key then 0 else total_usage counters (s, w) k f)"
  using assms
  by (auto simp: RedisStorage_RemoveBucket_def isTripped_def Let_def total_usage_def del_removes_def
      breaker_inv_def fallback_amount_def)

theorem RemoveBucket_removes_witness:
  "total_usage sim_hash (fst (RedisStorage_RemoveBucket sim_client Background ''d'' ''k''
     (sim_storage, sim_start True 0\<lparr>sim_hash := (\<lambda>_ _. 9)\<rparr>))) (DomainScopedKey ''d'' ''k'') fieldAllowed = 0"
proof -
  have "\<not> tripped sim_storage"
    by (simp add: NewRedisStorage_def Let_def)
  then show ?thesis
    using RemoveBucket_removes [OF sim_client_hyps(3) breaker_inv_New, where ctx = Background
        and d = "''d''" and key = "''k''" and w = "sim_start True 0\<lparr>sim_hash := (\<lambda>_ _. 9)\<rparr>"
        and k = "DomainScopedKey ''d'' ''k''" and f = fieldAllowed
        and w' = "fst (Del sim_client Background (DomainScopedKey ''d'' ''k'') (sim_start True 0\<lparr>sim_hash := (\<lambda>_ _. 9)\<rparr>))"]
    by (simp add: sim_client_def)
qed

text \<open>
  Removal that recovers the breaker does not remove: the \<open>DEL\<close> runs before the flush, so
  afterwards Redis holds for the removed bucket exactly what the fallback had accumulated.
\<close>

theorem RemoveBucket_recovery_restores_bucket:
  assumes "exec_applies c counters" and "del_removes c counters" and "breaker_inv s"
    and "tripped s" and "shouldRetry c w s"
    and "Del c ctx (DomainScopedKey d key) w = (w1, None)"
    and "snd (Exec c ctx (flush_cmds s) w1) = None"
    and "fst (RedisStorage_RemoveBucket c ctx d key (s, w)) = (s', w')"
  shows "\<not> tripped s'
    \<and> (word_of_int (counters w' (DomainScopedKey d key) f) :: uint64) =
        fallback_amount s (DomainScopedKey d key) f"
proof -
  have rec: "(s', w') = recoverFromFallback c ctx (s, w1)"
    using assms(4-6,8) by (simp add: RedisStorage_RemoveBucket_def isTripped_def Let_def)
  then have s': "s' = s\<lparr>fallback := \<lparr>buckets = []\<rparr>, tripped := False\<rparr>"
    using recover_storage [OF assms(3), of c ctx w1] by (metis fst_conv)
  have "counters w1 (DomainScopedKey d key) f = 0"
    using assms(2,6) by (simp add: del_removes_def)
  moreover have "total_usage counters (s', w') (DomainScopedKey d key) f =
      total_usage counters (s, w1) (DomainScopedKey d key) f"
    unfolding rec by (rule recover_total [OF assms(1,3,7)])
  ultimately show ?thesis
    using s' by (simp add: total_usage_def fallback_amount_def)
qed

theorem RemoveBucket_recovery_restores_bucket_witness:
  "\<exists>s' w'. fst (RedisStorage_RemoveBucket sim_client Background ''d''
       (BucketKeyFromProto (ReportBucketId sim_report)) (sim_tripped, sim_start True 6000000000)) = (s', w')
     \<and> \<not> tripped s'
     \<and> (word_of_int (sim_hash w' (report_key ''d'' sim_report) fieldAllowed) :: uint64) = 30"
proof -
  let ?call = "RedisStorage_RemoveBucket sim_client Background ''d''
       (BucketKeyFromProto (ReportBucketId sim_report)) (sim_tripped, sim_start True 6000000000)"
  obtain s' w' where res: "fst ?call = (s', w')" by (cases "fst ?call")
  have retry: "shouldRetry sim_client (sim_start True 6000000000) sim_tripped"
    by (simp add: shouldRetry_def sim_client_def NewRedisStorage_def Let_def sint_defaults)
  have trp: "tripped sim_tripped" by simp
  show ?thesis
    using RemoveBucket_recovery_restores_bucket [OF sim_client_hyps(1,3) breaker_inv_sim_tripped trp retry,
        where ctx = Background and d = "''d''" and f = fieldAllowed
        and key = "BucketKeyFromProto (ReportBucketId sim_report)"] res
    by (simp add: sim_client_def fallback_amount_def field_amount_def)
qed

text \<open>Successive reports through the store.\<close>

fun record_each ::
  "'w redis_client \<Rightarrow> go_context \<Rightarrow> string \<Rightarrow> UsageReport list \<Rightarrow> RedisStorage \<times> 'w \<Rightarrow> RedisStorage \<times> 'w"
where
  "record_each c ctx d [] st = st"
| "record_each c ctx d (r # rs) st = record_each c ctx d rs (fst (RedisStorage_RecordUsage c ctx d r st))"

lemma RecordUsage_failed_retry:
  assumes "tripped s" and "shouldRetry c w s"
    and "snd (Exec c ctx (record_cmds s (report_key d r) r) w) \<noteq> None"
    and "fst (RedisStorage_RecordUsage c ctx d r (s, w)) = (s', w')"
  shows "w' = fst (Exec c ctx (record_cmds s (report_key d r) r) w)"
    and "tripped s'" and "lastAttempt s' = lastAttempt s" and "retryInterval s' = retryInterval s"
  using assms
  by (auto simp: RedisStorage_RecordUsage_def isTripped_def tryRedisRecordUsage_def tripped_record_eq
      Let_def split: prod.splits option.splits if_splits)

text \<open>
  A failed retry does not restart the retry interval: with Redis down and a clock that
  does not run backwards, once the interval after the trip has passed every single report
  contacts Redis again, so \<open>n\<close> reports make \<open>n\<close> attempts.
\<close>

theorem open_breaker_retries_every_report:
  assumes "tripped s" and "shouldRetry c w s"
    and "\<And>ctx cmds w. snd (Exec c ctx cmds w) \<noteq> None"
    and "\<And>ctx cmds w. Now c w \<le> Now c (fst (Exec c ctx cmds w))"
    and "\<And>ctx cmds w. attempts (fst (Exec c ctx cmds w)) = Suc (attempts w)"
  shows "attempts (snd (record_each c ctx d rs (s, w))) = attempts w + length rs"
  using assms(1,2)
proof (induction rs arbitrary: s w)
  case (Cons r rs)
  obtain s' w' where st: "fst (RedisStorage_RecordUsage c ctx d r (s, w)) = (s', w')"
    by (cases "fst (RedisStorage_RecordUsage c ctx d r (s, w))")
  note step = RecordUsage_failed_retry [OF Cons.prems assms(3) st]
  have "Now c w \<le> Now c w'"
    unfolding step(1) by (rule assms(4))
  then have "shouldRetry c w' s'"
    using Cons.prems(2) step(3,4) by (simp add: shouldRetry_def)
  with step(2) have "attempts (snd (record_each c ctx d rs (s', w'))) = attempts w' + length rs"
    by (rule Cons.IH)
  moreover have "attempts w' = Suc (attempts w)"
    unfolding step(1) by (rule assms(5))
  ultimately show ?case using st by simp
qed simp

definition down_client :: "(nat \<times> int) redis_client" where
  "down_client =
     \<lparr>Exec = (\<lambda>ctx cmds (n, t). ((Suc n, t + 1), Some ''connection refused'')),
      Del = (\<lambda>ctx k (n, t). ((Suc n, t + 1), Some ''connection refused'')),
      ClientClose = (\<lambda>w. (w, None)),
      Now = snd\<rparr>"

theorem open_breaker_retries_every_report_witness:
  "fst (snd (record_each down_client Background ''d'' [sim_report, sim_report, sim_report]
     (sim_tripped, (0, 5000000000)))) = 3"
  using open_breaker_retries_every_report [of sim_tripped down_client "(0, 5000000000)" fst Background
      "''d''" "[sim_report, sim_report, sim_report]"]
  by (simp add: down_client_def shouldRetry_def NewRedisStorage_def Let_def sint_defaults split_beta)

section \<open>After Close\<close>

definition closed_refuses :: "'w redis_client \<Rightarrow> ('w \<Rightarrow> bool) \<Rightarrow> bool" where
  "closed_refuses c closed \<longleftrightarrow>
     (\<forall>w w'. ClientClose c w = (w', None) \<longrightarrow> closed w')
     \<and> (\<forall>ctx cmds w. closed w \<longrightarrow> closed (fst (Exec c ctx cmds w)) \<and> snd (Exec c ctx cmds w) \<noteq> None)"

lemma RecordUsage_closed:
  assumes "closed_refuses c closed" and "exec_failure_clean c counters" and "closed w"
    and "fst (RedisStorage_RecordUsage c ctx d r (s, w)) = (s', w')"
  shows "closed w' \<and> counters w' = counters w \<and> isTripped s'"
proof -
  let ?x = "Exec c ctx (record_cmds s (report_key d r) r) w"
  obtain e where e: "snd ?x = Some e" "closed (fst ?x)" using assms(1,3) by (fastforce simp: closed_refuses_def)
  then have "counters (fst ?x) = counters w" using assms(2) by (metis exec_failure_clean_def prod.collapse)
  then show ?thesis using assms(3,4) e
    by (cases ?x) (auto simp: RedisStorage_RecordUsage_def tryRedisRecordUsage_def fallback_ops_eq tripped_record_eq trip_def isTripped_def
        Let_def split: if_splits)
qed

text \<open>
  A closed store still accepts reports: \<open>Close\<close> changes neither the breaker nor the fallback,
  and every later report is handled locally, behind an open breaker, without reaching Redis.
\<close>

theorem closed_store_works_locally:
  assumes "closed_refuses c closed" and "exec_failure_clean c counters"
    and "RedisStorage_Close c (s, w) = ((s0, w0), None)"
  shows "s0 = s \<and> counters (snd (record_each c ctx d rs (s0, w0))) = counters w0
    \<and> (rs \<noteq> [] \<longrightarrow> isTripped (fst (record_each c ctx d rs (s0, w0))))"
proof -
  have w0: "closed w0" "s0 = s" using assms(1,3) by (auto simp: RedisStorage_Close_def closed_refuses_def split: prod.splits)
  have run: "closed w \<Longrightarrow> counters (snd (record_each c ctx d rs (s, w))) = counters w
      \<and> (rs \<noteq> [] \<longrightarrow> isTripped (fst (record_each c ctx d rs (s, w))))" for s w
  proof (induction rs arbitrary: s w)
    case (Cons r rs)
    obtain s' w' where st: "fst (RedisStorage_RecordUsage c ctx d r (s, w)) = (s', w')"
      by (cases "fst (RedisStorage_RecordUsage c ctx d r (s, w))")
    note step = RecordUsage_closed [OF assms(1,2) Cons.prems st]
    show ?case using Cons.IH [of w' s'] step st by (cases rs) auto
  qed simp
  show ?thesis using run [OF w0(1), of s0] w0(2) by blast
qed

theorem closed_store_works_locally_witness:
  "isTripped (fst (record_each sim_client Background ''d'' [sim_report]
     (fst (RedisStorage_Close sim_client (sim_tripped\<lparr>tripped := False\<rparr>, sim_start True 0)))))"
proof -
  have "closed_refuses sim_client (\<lambda>w. \<not> sim_up w)" by (simp add: closed_refuses_def sim_client_def)
  moreover have "RedisStorage_Close sim_client (sim_tripped\<lparr>tripped := False\<rparr>, sim_start True 0) =
      ((sim_tripped\<lparr>tripped := False\<rparr>, sim_start False 0), None)"
    by (simp add: RedisStorage_Close_def sim_client_def)
  ultimately show ?thesis
    using closed_store_works_locally [OF _ sim_client_hyps(2), of "\<lambda>w. \<not> sim_up w" "sim_tripped\<lparr>tripped := False\<rparr>" "sim_start True 0"
        "sim_tripped\<lparr>tripped := False\<rparr>" "sim_start False 0" Background "''d''" "[sim_report]"] by simp
qed

end
