(* ===== verification/Durations.thy ===== *)
theory Durations
  imports RLQS_Prelude
begin

text \<open>
  Go's \<open>time.ParseDuration\<close>, which reads every duration of the configuration, from the file and
  from the environment. Machine integers are natural numbers with the wrap-around of the one sum
  that can overflow written out; the floating-point arithmetic of fractions is rounding to
  53 significant bits, ties to even, on fractions of natural numbers.
\<close>

section \<open>Digits\<close>

definition is_digit :: "char \<Rightarrow> bool" where
  "is_digit c \<longleftrightarrow> CHR ''0'' \<le> c \<and> c \<le> CHR ''9''"

definition digit_value :: "char \<Rightarrow> nat" where
  "digit_value c = of_char c - of_char CHR ''0''"

text \<open>\<open>leadingInt\<close>: \<^const>\<open>None\<close> is its overflow error.\<close>

fun leadingInt :: "nat \<Rightarrow> string \<Rightarrow> (nat \<times> string) option" where
  "leadingInt x [] = Some (x, [])"
| "leadingInt x (c # cs) =
     (if is_digit c then
        (if x > 2 ^ 63 div 10 then None
         else let y = 10 * x + digit_value c in if y > 2 ^ 63 then None else leadingInt y cs)
      else Some (x, c # cs))"

text \<open>\<open>leadingFraction\<close>: digits beyond the range are skipped, the scale stays a power of ten.\<close>

fun leadingFraction :: "bool \<Rightarrow> nat \<Rightarrow> nat \<Rightarrow> string \<Rightarrow> nat \<times> nat \<times> string" where
  "leadingFraction overflow x scale [] = (x, scale, [])"
| "leadingFraction overflow x scale (c # cs) =
     (if is_digit c then
        (if overflow then leadingFraction True x scale cs
         else if x > (2 ^ 63 - 1) div 10 then leadingFraction True x scale cs
         else let y = 10 * x + digit_value c
              in if y > 2 ^ 63 then leadingFraction True x scale cs
                 else leadingFraction False y (scale * 10) cs)
      else (x, scale, c # cs))"

section \<open>Floating-point arithmetic\<close>

fun bits :: "nat \<Rightarrow> nat" where
  "bits n = (if n = 0 then 0 else Suc (bits (n div 2)))"

declare bits.simps [simp del]

definition round_even :: "nat \<Rightarrow> nat \<Rightarrow> nat" where
  "round_even n d =
     (let q = n div d; r = n mod d
      in if 2 * r < d \<or> (2 * r = d \<and> even q) then q else Suc q)"

text \<open>
  The \<open>float64\<close> nearest to a fraction. The shifted quotient lies between $2^{53}$ and $2^{55}$;
  halving it once or twice leaves 53 bits.
\<close>

definition float64 :: "nat \<times> nat \<Rightarrow> nat \<times> nat" where
  "float64 x =
     (case x of (n, d) \<Rightarrow>
        if n = 0 then (0, 1)
        else let k = bits n; l = bits d;
                 num = n * 2 ^ (54 + l); den = d * 2 ^ k;
                 s = (if num div den < 2 ^ 54 then 1 else 2);
                 m = round_even num (den * 2 ^ s)
             in (m * 2 ^ (s + k), 2 ^ (54 + l)))"

definition float_mult :: "nat \<times> nat \<Rightarrow> nat \<times> nat \<Rightarrow> nat \<times> nat" where
  "float_mult x y = float64 (fst x * fst y, snd x * snd y)"

text \<open>\<open>uint64(float64(f) * (float64(unit) / scale))\<close>\<close>

definition fraction_part :: "nat \<Rightarrow> nat \<Rightarrow> nat \<Rightarrow> nat" where
  "fraction_part f unit scale =
     (let z = float_mult (float64 (f, 1)) (float64 (unit, scale)) in fst z div snd z)"

section \<open>ParseDuration\<close>

datatype duration_error = InvalidDuration | MissingUnit | UnknownUnit string

definition unitMap :: "string \<Rightarrow> nat option" where
  "unitMap = map_of
     [(''ns'', 1),
      (''us'', 1000),
      ([CHR 0xC2, CHR 0xB5, CHR ''s''], 1000),
      ([CHR 0xCE, CHR 0xBC, CHR ''s''], 1000),
      (''ms'', 1000000),
      (''s'', 1000000000),
      (''m'', 60000000000),
      (''h'', 3600000000000)]"

definition unit_char :: "char \<Rightarrow> bool" where
  "unit_char c \<longleftrightarrow> \<not> (c = CHR ''.'' \<or> is_digit c)"

text \<open>One number with its unit: the value it adds and the rest of the string.\<close>

definition parse_term :: "string \<Rightarrow> duration_error + nat \<times> string" where
  "parse_term s =
     (if \<not> (hd s = CHR ''.'' \<or> is_digit (hd s)) then Inl InvalidDuration
      else case leadingInt 0 s of
        None \<Rightarrow> Inl InvalidDuration
      | Some (v, s1) \<Rightarrow>
          (let pre = (length s \<noteq> length s1);
               dot = (s1 \<noteq> [] \<and> hd s1 = CHR ''.'');
               (f, scale, s2) = (if dot then leadingFraction False 0 1 (tl s1) else (0, 1, s1));
               post = (dot \<and> length (tl s1) \<noteq> length s2)
           in if \<not> pre \<and> \<not> post then Inl InvalidDuration
              else let u = takeWhile unit_char s2; s3 = dropWhile unit_char s2
                   in if u = [] then Inl MissingUnit
                      else case unitMap u of
                             None \<Rightarrow> Inl (UnknownUnit u)
                           | Some unit \<Rightarrow>
                               if v > 2 ^ 63 div unit then Inl InvalidDuration
                               else let v1 = v * unit
                                    in if f > 0 then
                                         (let v2 = v1 + fraction_part f unit scale
                                          in if v2 > 2 ^ 63 then Inl InvalidDuration else Inr (v2, s3))
                                       else Inr (v1, s3)))"

lemma leadingInt_length: "leadingInt x s = Some (v, r) \<Longrightarrow> length r \<le> length s"
  by (induction x s rule: leadingInt.induct) (auto simp: Let_def split: if_splits)

lemma leadingFraction_length: "leadingFraction ov x scale s = (f, sc, r) \<Longrightarrow> length r \<le> length s"
  by (induction ov x scale s rule: leadingFraction.induct) (auto simp: Let_def split: if_splits)

lemma unit_shorter: "takeWhile unit_char s \<noteq> [] \<Longrightarrow> length (dropWhile unit_char s) < length s"
  by (metis append_Nil length_append length_greater_0_conv less_add_same_cancel2 takeWhile_dropWhile_id)

lemma parse_term_shorter:
  assumes "parse_term s = Inr (v, r)"
  shows "length r < length s"
proof -
  obtain w s1 where li: "leadingInt 0 s = Some (w, s1)"
    using assms by (auto simp: parse_term_def split: if_splits option.splits)
  define s2 where "s2 = snd (snd (if s1 \<noteq> [] \<and> hd s1 = CHR ''.'' then leadingFraction False 0 1 (tl s1) else (0, 1, s1)))"
  have "length s2 \<le> length s1"
    using leadingFraction_length [of False 0 1 "tl s1"]
    by (cases "leadingFraction False 0 1 (tl s1)") (fastforce simp: s2_def)
  moreover have "r = dropWhile unit_char s2" "takeWhile unit_char s2 \<noteq> []"
    using assms li by (auto simp: parse_term_def Let_def s2_def split: if_splits option.splits prod.splits)
  ultimately show ?thesis using leadingInt_length [OF li] unit_shorter [of s2] by simp
qed

function parse_terms :: "nat \<Rightarrow> string \<Rightarrow> duration_error + nat" where
  "parse_terms d s =
     (if s = [] then Inr d
      else case parse_term s of
             Inl e \<Rightarrow> Inl e
           | Inr (v, rest) \<Rightarrow>
               (let d' = (d + v) mod 2 ^ 64
                in if d' > 2 ^ 63 then Inl InvalidDuration else parse_terms d' rest))"
  by pat_completeness auto

termination
  by (relation "measure (length \<circ> snd)") (auto simp: parse_term_shorter)

declare parse_terms.simps [simp del]

definition ParseDuration :: "string \<Rightarrow> duration_error + duration" where
  "ParseDuration orig =
     (let neg = (orig \<noteq> [] \<and> hd orig = CHR ''-'');
          s = (if orig \<noteq> [] \<and> (hd orig = CHR ''-'' \<or> hd orig = CHR ''+'') then tl orig else orig)
      in if s = ''0'' then Inr 0
         else if s = [] then Inl InvalidDuration
         else case parse_terms 0 s of
                Inl e \<Rightarrow> Inl e
              | Inr d \<Rightarrow>
                  if neg then Inr (- of_nat d)
                  else if d > 2 ^ 63 - 1 then Inl InvalidDuration
                  else Inr (of_nat d))"

section \<open>A number with a unit\<close>

definition decimal :: "nat \<Rightarrow> string \<Rightarrow> nat" where
  "decimal x ds = foldl (\<lambda>n c. 10 * n + digit_value c) x ds"

lemma decimal_simps [simp]: "decimal x [] = x" "decimal x (c # cs) = decimal (10 * x + digit_value c) cs"
  by (simp_all add: decimal_def)

lemma decimal_ge: "x \<le> decimal x ds"
proof (induction ds arbitrary: x)
  case (Cons c cs)
  show ?case using Cons [of "10 * x + digit_value c"] by simp
qed simp

lemma leadingInt_digits:
  assumes "list_all is_digit ds" and "rest \<noteq> []" and "\<not> is_digit (hd rest)" and "x \<le> 2 ^ 63"
  shows "leadingInt x (ds @ rest) = (if decimal x ds \<le> 2 ^ 63 then Some (decimal x ds, rest) else None)"
  using assms(1,4)
proof (induction ds arbitrary: x)
  case Nil
  then show ?case using assms(2,3) by (cases rest) simp_all
next
  case (Cons c cs)
  let ?y = "10 * x + digit_value c"
  have big: "?y > 2 ^ 63" if "x > 2 ^ 63 div 10" using that by simp
  have "\<not> decimal ?y cs \<le> 2 ^ 63" if "?y > 2 ^ 63" using decimal_ge [of ?y cs] that by simp
  then show ?case using Cons big by (auto simp: Let_def not_less)
qed

lemma unitMap_unit:
  assumes "unitMap u = Some n"
  shows "u \<noteq> []" "list_all unit_char u" "0 < n" "hd u \<noteq> CHR ''.''" "\<not> is_digit (hd u)"
  using assms by (auto simp: unitMap_def unit_char_def is_digit_def less_eq_char_def split: if_splits)

lemma takeWhile_all: "list_all P xs \<Longrightarrow> takeWhile P xs = xs" "list_all P xs \<Longrightarrow> dropWhile P xs = []"
  by (simp_all add: list_all_iff takeWhile_eq_all_conv)

lemma parse_term_unit:
  assumes "list_all is_digit ds" and "ds \<noteq> []" and "unitMap u = Some n"
  shows "parse_term (ds @ u) = (if decimal 0 ds * n \<le> 2 ^ 63 then Inr (decimal 0 ds * n, []) else Inl InvalidDuration)"
proof -
  note u = unitMap_unit [OF assms(3)]
  have hd: "is_digit (hd (ds @ u))" using assms(1,2) by (cases ds) simp_all
  have le: "decimal 0 ds * n \<le> 2 ^ 63 \<Longrightarrow> decimal 0 ds \<le> 2 ^ 63" using u(3) by (cases n) simp_all
  have div: "decimal 0 ds \<le> 2 ^ 63 div n \<longleftrightarrow> decimal 0 ds * n \<le> 2 ^ 63" using u(3) by (rule less_eq_div_iff_mult_less_eq)
  have int: "leadingInt 0 (ds @ u) = (if decimal 0 ds \<le> 2 ^ 63 then Some (decimal 0 ds, u) else None)"
    using leadingInt_digits [OF assms(1) u(1,5), of 0] by simp
  show ?thesis
    using hd le div int u assms(2,3)
    by (auto simp: parse_term_def takeWhile_all not_less not_le Let_def)
qed

lemma ParseDuration_unit:
  assumes "list_all is_digit ds" and "ds \<noteq> []" and "unitMap u = Some n"
  shows "ParseDuration (ds @ u) = (if decimal 0 ds * n < 2 ^ 63 then Inr (of_nat (decimal 0 ds * n)) else Inl InvalidDuration)"
    and "ParseDuration (CHR ''-'' # ds @ u) =
      (if decimal 0 ds * n \<le> 2 ^ 63 then Inr (- of_nat (decimal 0 ds * n)) else Inl InvalidDuration)"
proof -
  note u = unitMap_unit [OF assms(3)]
  have sign: "hd (ds @ u) \<noteq> CHR ''-''" "hd (ds @ u) \<noteq> CHR ''+''" "ds @ u \<noteq> []" "ds @ u \<noteq> ''0''"
    using assms(1,2) u(1) by (cases ds; auto simp: is_digit_def less_eq_char_def append_eq_Cons_conv)+
  have one: "parse_terms 0 (ds @ u) = (if decimal 0 ds * n \<le> 2 ^ 63 then Inr (decimal 0 ds * n) else Inl InvalidDuration)"
    using sign(3) parse_term_unit [OF assms] by (simp add: parse_terms.simps [of 0 "ds @ u"] parse_terms.simps [of _ "[]"] Let_def)
  show "ParseDuration (ds @ u) = (if decimal 0 ds * n < 2 ^ 63 then Inr (of_nat (decimal 0 ds * n)) else Inl InvalidDuration)"
    using sign one by (simp add: ParseDuration_def Let_def)
  show "ParseDuration (CHR ''-'' # ds @ u) =
      (if decimal 0 ds * n \<le> 2 ^ 63 then Inr (- of_nat (decimal 0 ds * n)) else Inl InvalidDuration)"
    using sign one by (simp add: ParseDuration_def Let_def)
qed

end
