(* ===== verification/Config.thy ===== *)
theory Config
  imports Durations
begin

text \<open>
  The package \<open>internal/config\<close>: the configuration tree, \<open>Load\<close> with its defaults, deprecated
  names and environment overrides (\<open>src/internal/config/config.go\<close>) and \<open>Diff\<close>
  (\<open>src/internal/config/diff.go\<close>). A Go pointer is an option, a slice that may be nil an
  optional list. The operating system and the YAML decoder are a parameter of \<open>Load\<close>, the
  record \<open>load_env\<close>.
\<close>

section \<open>The configuration tree\<close>

record TracingConfig =
  Enabled :: bool
  Endpoint :: string
  Insecure :: bool

record CfgRedis =
  CR_Addr :: string
  CR_PoolSize :: int

record StorageConfig =
  StorageType :: string
  RedisOf :: CfgRedis

record TLSConfig =
  CertFile :: string
  KeyFile :: string
  CAFile :: string

record ServerConfig =
  GRPCAddr :: string
  MetricsAddr :: string
  TLS :: TLSConfig
  MaxConcurrentStreams :: uint32
  MaxBucketsPerStream :: int
  MaxReportsPerMessage :: int
  EngineTimeout :: duration
  MaxBucketEntries :: int
  MaxBucketKeyLen :: int
  MaxBucketValueLen :: int
  MaxMetricDomains :: int
  KeepaliveMaxIdleTime :: duration
  KeepalivePingInterval :: duration
  KeepalivePingTimeout :: duration

record DenyResponseConfig =
  HTTPStatus :: int
  HTTPBody :: string
  GRPCStatusCode :: int
  GRPCStatusMessage :: string
  ResponseHeadersToAdd :: "(string \<rightharpoonup> string) option"

record PolicyConfig =
  PC_DomainPattern :: string
  PC_BucketKeyPattern :: string
  PC_TokensPerFill :: uint64
  PC_RPS :: uint64
  PC_AssignmentTTL :: "duration option"
  PC_Strategy :: string
  PC_RequestsPerTimeUnit :: uint64
  PC_TimeUnit :: string
  PC_DenyResponse :: "DenyResponseConfig option"

record CfgEngine =
  DefaultTokensPerFill :: uint64
  DefaultRPS :: uint64
  ReportingInterval :: duration
  CE_Policies :: "PolicyConfig list option"

record Config =
  ServerOf :: ServerConfig
  EngineOf :: CfgEngine
  StorageOf :: StorageConfig
  TracingOf :: TracingConfig

text \<open>The elements a \<open>range\<close> loop visits; a nil slice has none.\<close>

definition elems :: "'a list option \<Rightarrow> 'a list" where
  "elems s = (case s of None \<Rightarrow> [] | Some xs \<Rightarrow> xs)"

lemma elems_simps [simp]: "elems None = []" "elems (Some xs) = xs"
  by (simp_all add: elems_def)

section \<open>Deprecated names\<close>

definition resolve_policy :: "PolicyConfig \<Rightarrow> PolicyConfig" where
  "resolve_policy p =
     (if PC_TokensPerFill p = 0 \<and> PC_RPS p > 0 then p\<lparr>PC_TokensPerFill := PC_RPS p\<rparr> else p)"

definition resolveDeprecated :: "CfgEngine \<Rightarrow> CfgEngine" where
  "resolveDeprecated e =
     (let e = (if DefaultTokensPerFill e = 0 \<and> DefaultRPS e > 0
               then e\<lparr>DefaultTokensPerFill := DefaultRPS e\<rparr> else e);
          e = (if DefaultTokensPerFill e = 0 then e\<lparr>DefaultTokensPerFill := 100\<rparr> else e)
      in e\<lparr>CE_Policies := map_option (map resolve_policy) (CE_Policies e)\<rparr>)"

section \<open>Parsing of numbers\<close>

text \<open>\<open>strconv.ParseUint(s, 10, 64)\<close> and \<open>strconv.Atoi(s)\<close>; \<^const>\<open>None\<close> is a syntax or range error.\<close>

fun parse_digits :: "nat \<Rightarrow> string \<Rightarrow> nat option" where
  "parse_digits n [] = Some n"
| "parse_digits n (c # cs) =
     (if CHR ''0'' \<le> c \<and> c \<le> CHR ''9''
      then parse_digits (10 * n + (of_char c - of_char CHR ''0'')) cs else None)"

definition ParseUint :: "string \<Rightarrow> uint64 option" where
  "ParseUint s =
     (if s = [] then None
      else case parse_digits 0 s of
             None \<Rightarrow> None
           | Some n \<Rightarrow> if n < 2 ^ 64 then Some (of_nat n) else None)"

definition Atoi :: "string \<Rightarrow> int option" where
  "Atoi s =
     (let neg = (s \<noteq> [] \<and> hd s = CHR ''-'');
          body = (if s \<noteq> [] \<and> (hd s = CHR ''-'' \<or> hd s = CHR ''+'') then tl s else s)
      in if body = [] then None
         else case parse_digits 0 body of
                None \<Rightarrow> None
              | Some n \<Rightarrow>
                  if neg then (if n \<le> 2 ^ 63 then Some (- int n) else None)
                  else (if n < 2 ^ 63 then Some (int n) else None))"

section \<open>Load\<close>

record load_env =
  ReadFile :: "string \<Rightarrow> go_error + string"
  Unmarshal :: "string \<Rightarrow> Config \<Rightarrow> go_error + Config"
  Getenv :: "string \<Rightarrow> string"

text \<open>
  \<open>Duration.UnmarshalYAML\<close>: the node decodes to a string or fails, and the receiver changes only
  when the string is a duration.
\<close>

definition UnmarshalYAML :: "go_error + string \<Rightarrow> duration \<Rightarrow> duration \<times> (go_error + duration_error) option" where
  "UnmarshalYAML decoded d =
     (case decoded of
        Inl e \<Rightarrow> (d, Some (Inl e))
      | Inr s \<Rightarrow> (case ParseDuration s of Inl e \<Rightarrow> (d, Some (Inr e)) | Inr dur \<Rightarrow> (dur, None)))"

definition default_config :: Config where
  "default_config =
     \<lparr>ServerOf =
        \<lparr>GRPCAddr = '':18081'', MetricsAddr = '':9090'',
         TLS = \<lparr>CertFile = [], KeyFile = [], CAFile = []\<rparr>,
         MaxConcurrentStreams = 1000, MaxBucketsPerStream = 100, MaxReportsPerMessage = 1000,
         EngineTimeout = 5 * Second,
         MaxBucketEntries = 100, MaxBucketKeyLen = 256, MaxBucketValueLen = 1024,
         MaxMetricDomains = 100,
         KeepaliveMaxIdleTime = 5 * Minute, KeepalivePingInterval = 1 * Minute,
         KeepalivePingTimeout = 20 * Second\<rparr>,
      EngineOf =
        \<lparr>DefaultTokensPerFill = 0, DefaultRPS = 0, ReportingInterval = 10 * Second, CE_Policies = None\<rparr>,
      StorageOf = \<lparr>StorageType = [], RedisOf = \<lparr>CR_Addr = [], CR_PoolSize = 0\<rparr>\<rparr>,
      TracingOf = \<lparr>Enabled = False, Endpoint = [], Insecure = False\<rparr>\<rparr>"

definition load_file :: "load_env \<Rightarrow> string \<Rightarrow> go_error + Config" where
  "load_file env path =
     (if path \<noteq> [] then
        (case ReadFile env path of
           Inl e \<Rightarrow> Inl e
         | Inr data \<Rightarrow> Unmarshal env data default_config)
      else Inr default_config)"

text \<open>An override applies when the variable is set to a non-empty value.\<close>

definition override :: "load_env \<Rightarrow> string \<Rightarrow> (string \<Rightarrow> 'a \<Rightarrow> 'a) \<Rightarrow> 'a \<Rightarrow> 'a" where
  "override env name f x = (let v = Getenv env name in if v \<noteq> [] then f v x else x)"

definition is_true :: "string \<Rightarrow> bool" where
  "is_true v \<longleftrightarrow> v = ''true'' \<or> v = ''1''"

definition set_tokens :: "string \<Rightarrow> CfgEngine \<Rightarrow> CfgEngine" where
  "set_tokens v e = (case ParseUint v of None \<Rightarrow> e | Some n \<Rightarrow> e\<lparr>DefaultTokensPerFill := n\<rparr>)"

definition override_tokens :: "load_env \<Rightarrow> CfgEngine \<Rightarrow> CfgEngine" where
  "override_tokens env e =
     (if Getenv env ''RLQS_DEFAULT_TOKENS_PER_FILL'' \<noteq> []
      then set_tokens (Getenv env ''RLQS_DEFAULT_TOKENS_PER_FILL'') e
      else if Getenv env ''RLQS_DEFAULT_RPS'' \<noteq> []
      then set_tokens (Getenv env ''RLQS_DEFAULT_RPS'') e
      else e)"

definition override_server :: "load_env \<Rightarrow> ServerConfig \<Rightarrow> ServerConfig" where
  "override_server env s =
     (let s = override env ''RLQS_GRPC_ADDR'' (\<lambda>v s. s\<lparr>GRPCAddr := v\<rparr>) s;
          s = override env ''RLQS_METRICS_ADDR'' (\<lambda>v s. s\<lparr>MetricsAddr := v\<rparr>) s;
          s = override env ''RLQS_TLS_CERT_FILE'' (\<lambda>v s. s\<lparr>TLS := (TLS s)\<lparr>CertFile := v\<rparr>\<rparr>) s;
          s = override env ''RLQS_TLS_KEY_FILE'' (\<lambda>v s. s\<lparr>TLS := (TLS s)\<lparr>KeyFile := v\<rparr>\<rparr>) s;
          s = override env ''RLQS_TLS_CA_FILE'' (\<lambda>v s. s\<lparr>TLS := (TLS s)\<lparr>CAFile := v\<rparr>\<rparr>) s
      in s)"

definition override_engine :: "load_env \<Rightarrow> CfgEngine \<Rightarrow> CfgEngine" where
  "override_engine env e =
     override env ''RLQS_REPORTING_INTERVAL''
       (\<lambda>v e. case ParseDuration v of Inl err \<Rightarrow> e | Inr d \<Rightarrow> e\<lparr>ReportingInterval := d\<rparr>)
       (override_tokens env e)"

definition override_storage :: "load_env \<Rightarrow> StorageConfig \<Rightarrow> StorageConfig" where
  "override_storage env s =
     (let s = override env ''RLQS_STORAGE_TYPE'' (\<lambda>v s. s\<lparr>StorageType := v\<rparr>) s;
          s = override env ''RLQS_STORAGE_REDIS_ADDR'' (\<lambda>v s. s\<lparr>RedisOf := (RedisOf s)\<lparr>CR_Addr := v\<rparr>\<rparr>) s;
          s = override env ''RLQS_STORAGE_REDIS_POOL_SIZE''
                (\<lambda>v s. case Atoi v of None \<Rightarrow> s | Some n \<Rightarrow> s\<lparr>RedisOf := (RedisOf s)\<lparr>CR_PoolSize := n\<rparr>\<rparr>) s
      in s)"

definition override_tracing :: "load_env \<Rightarrow> TracingConfig \<Rightarrow> TracingConfig" where
  "override_tracing env t =
     (let t = override env ''RLQS_TRACING_ENABLED'' (\<lambda>v t. t\<lparr>Enabled := is_true v\<rparr>) t;
          t = override env ''RLQS_TRACING_ENDPOINT'' (\<lambda>v t. t\<lparr>Endpoint := v\<rparr>) t;
          t = override env ''RLQS_TRACING_INSECURE'' (\<lambda>v t. t\<lparr>Insecure := is_true v\<rparr>) t
      in t)"

definition Load :: "load_env \<Rightarrow> string \<Rightarrow> go_error + Config" where
  "Load env path =
     (case load_file env path of
        Inl e \<Rightarrow> Inl e
      | Inr cfg \<Rightarrow>
          Inr \<lparr>ServerOf = override_server env (ServerOf cfg),
               EngineOf = override_engine env (resolveDeprecated (EngineOf cfg)),
               StorageOf = override_storage env (StorageOf cfg),
               TracingOf = override_tracing env (TracingOf cfg)\<rparr>)"

section \<open>Diff\<close>

datatype ReloadScope = ScopeHotReload | ScopeRequiresRestart

record Change =
  Section :: string
  Scope :: ReloadScope

text \<open>\<open>reflect.DeepEqual\<close> on the section values is equality of the records.\<close>

definition Diff :: "Config \<Rightarrow> Config \<Rightarrow> Change list" where
  "Diff old new =
     (if EngineOf old \<noteq> EngineOf new then [\<lparr>Section = ''engine'', Scope = ScopeHotReload\<rparr>] else [])
     @ (if ServerOf old \<noteq> ServerOf new then [\<lparr>Section = ''server'', Scope = ScopeRequiresRestart\<rparr>] else [])
     @ (if StorageOf old \<noteq> StorageOf new then [\<lparr>Section = ''storage'', Scope = ScopeRequiresRestart\<rparr>] else [])
     @ (if TracingOf old \<noteq> TracingOf new then [\<lparr>Section = ''tracing'', Scope = ScopeRequiresRestart\<rparr>] else [])"

section \<open>Properties of Load\<close>

lemma Load_Inr: "Load env path = Inr cfg \<longleftrightarrow>
    (\<exists>f. load_file env path = Inr f \<and> ServerOf cfg = override_server env (ServerOf f)
      \<and> EngineOf cfg = override_engine env (resolveDeprecated (EngineOf f))
      \<and> StorageOf cfg = override_storage env (StorageOf f)
      \<and> TracingOf cfg = override_tracing env (TracingOf f))"
  by (cases cfg) (auto simp: Load_def split: sum.splits)

lemma resolveDeprecated_frame [simp]:
  "ReportingInterval (resolveDeprecated e) = ReportingInterval e"
  "CE_Policies (resolveDeprecated e) = map_option (map resolve_policy) (CE_Policies e)"
  by (simp_all add: resolveDeprecated_def Let_def)

lemma elems_map_option [simp]: "elems (map_option (map f) s) = map f (elems s)"
  by (cases s) simp_all

lemma override_tokens_frame [simp]:
  "ReportingInterval (override_tokens env e) = ReportingInterval e"
  "CE_Policies (override_tokens env e) = CE_Policies e"
  by (simp_all add: override_tokens_def set_tokens_def split: option.split)


lemma resolveDeprecated_tokens: "DefaultTokensPerFill (resolveDeprecated e) \<noteq> 0"
  by (simp add: resolveDeprecated_def Let_def word_gt_0)

text \<open>
  The default token count is never zero by omission: a loaded configuration has
  \<open>DefaultTokensPerFill = 0\<close> only if an environment variable says so explicitly.
\<close>

theorem Load_tokens_nonzero:
  assumes "Load env path = Inr cfg" and "DefaultTokensPerFill (EngineOf cfg) = 0"
  shows "ParseUint (Getenv env ''RLQS_DEFAULT_TOKENS_PER_FILL'') = Some 0
    \<or> (Getenv env ''RLQS_DEFAULT_TOKENS_PER_FILL'' = []
        \<and> ParseUint (Getenv env ''RLQS_DEFAULT_RPS'') = Some 0)"
proof -
  obtain f :: Config where eng: "EngineOf cfg = override_engine env (resolveDeprecated (EngineOf f))"
    using assms(1) unfolding Load_Inr by blast
  have "DefaultTokensPerFill (override_tokens env (resolveDeprecated (EngineOf f))) = 0"
    using assms(2) unfolding eng
    by (auto simp: override_engine_def override_def Let_def split: sum.splits if_splits)
  then show ?thesis
    using resolveDeprecated_tokens [of "EngineOf f"]
    by (auto simp: override_tokens_def set_tokens_def split: option.splits if_splits)
qed

text \<open>An environment for examples: no file access, one variable set.\<close>

definition env_with :: "string \<Rightarrow> string \<Rightarrow> load_env" where
  "env_with name value =
     \<lparr>ReadFile = (\<lambda>_. Inl ''no such file''), Unmarshal = (\<lambda>_ c. Inr c),
      Getenv = (\<lambda>n. if n = name then value else [])\<rparr>"


theorem Load_tokens_nonzero_witness:
  "\<exists>cfg. Load (env_with ''RLQS_DEFAULT_RPS'' ''0'') [] = Inr cfg
     \<and> DefaultTokensPerFill (EngineOf cfg) = 0
     \<and> ParseUint (Getenv (env_with ''RLQS_DEFAULT_RPS'' ''0'') ''RLQS_DEFAULT_RPS'') = Some 0"
proof -
  obtain cfg where cfg: "Load (env_with ''RLQS_DEFAULT_RPS'' ''0'') [] = Inr cfg"
    by (simp add: Load_def load_file_def)
  then have "DefaultTokensPerFill (EngineOf cfg) = 0"
    by (auto simp: Load_Inr load_file_def override_engine_def override_def override_tokens_def
        set_tokens_def env_with_def ParseUint_def Let_def)
  with cfg Load_tokens_nonzero [OF cfg this] show ?thesis
    by (auto simp: env_with_def ParseUint_def)
qed

text \<open>
  \<open>Diff\<close> is exact: it is empty iff the configurations are equal, it reports a section
  iff that section differs, each at most once, and only the engine section is hot-reloadable.
\<close>

theorem Diff_exact:
  "(Diff old new = [] \<longleftrightarrow> old = new)
   \<and> distinct (map Section (Diff old new))
   \<and> set (Diff old new) =
      {c. (c = \<lparr>Section = ''engine'', Scope = ScopeHotReload\<rparr> \<and> EngineOf old \<noteq> EngineOf new)
        \<or> (c = \<lparr>Section = ''server'', Scope = ScopeRequiresRestart\<rparr> \<and> ServerOf old \<noteq> ServerOf new)
        \<or> (c = \<lparr>Section = ''storage'', Scope = ScopeRequiresRestart\<rparr> \<and> StorageOf old \<noteq> StorageOf new)
        \<or> (c = \<lparr>Section = ''tracing'', Scope = ScopeRequiresRestart\<rparr> \<and> TracingOf old \<noteq> TracingOf new)}"
proof (intro conjI)
  show "Diff old new = [] \<longleftrightarrow> old = new"
    by (cases old, cases new) (simp add: Diff_def)
  show "distinct (map Section (Diff old new))"
    by (simp add: Diff_def)
  show "set (Diff old new) =
      {c. (c = \<lparr>Section = ''engine'', Scope = ScopeHotReload\<rparr> \<and> EngineOf old \<noteq> EngineOf new)
        \<or> (c = \<lparr>Section = ''server'', Scope = ScopeRequiresRestart\<rparr> \<and> ServerOf old \<noteq> ServerOf new)
        \<or> (c = \<lparr>Section = ''storage'', Scope = ScopeRequiresRestart\<rparr> \<and> StorageOf old \<noteq> StorageOf new)
        \<or> (c = \<lparr>Section = ''tracing'', Scope = ScopeRequiresRestart\<rparr> \<and> TracingOf old \<noteq> TracingOf new)}"
    unfolding Diff_def set_append by (intro set_eqI) simp
qed

text \<open>
  C33. Durations are read back exactly. A decimal number with one of Go's units, as the value
  of \<open>RLQS_REPORTING_INTERVAL\<close> or as a YAML scalar of type \<open>Duration\<close>, becomes that many
  nanoseconds; a number that does not fit 64 bits leaves the value from the file, and is an
  error of the decoder.
\<close>

theorem durations_read_back:
  assumes "list_all is_digit ds" and "ds \<noteq> []" and "unitMap u = Some n"
    and "Getenv env ''RLQS_REPORTING_INTERVAL'' = ds @ u"
    and "Load env path = Inr cfg" and "load_file env path = Inr f"
  shows "if decimal 0 ds * n < 2 ^ 63
    then ReportingInterval (EngineOf cfg) = of_nat (decimal 0 ds * n) \<and> UnmarshalYAML (Inr (ds @ u)) d = (of_nat (decimal 0 ds * n), None)
    else ReportingInterval (EngineOf cfg) = ReportingInterval (EngineOf f) \<and> UnmarshalYAML (Inr (ds @ u)) d = (d, Some (Inr InvalidDuration))"
proof -
  have eng: "EngineOf cfg = override_engine env (resolveDeprecated (EngineOf f))" using assms(5,6) by (auto simp: Load_Inr)
  have "ReportingInterval (override_tokens env (resolveDeprecated (EngineOf f))) = ReportingInterval (EngineOf f)"
    by (simp add: override_tokens_def set_tokens_def resolveDeprecated_def Let_def split: option.split)
  then show ?thesis
    unfolding eng using ParseDuration_unit(1) [OF assms(1-3)] assms(2,4)
    by (simp add: override_engine_def override_def Let_def UnmarshalYAML_def)
qed

theorem durations_read_back_witness:
  "\<exists>cfg. Load (env_with ''RLQS_REPORTING_INTERVAL'' ''250ms'') [] = Inr cfg
     \<and> ReportingInterval (EngineOf cfg) = 250000000 \<and> UnmarshalYAML (Inr ''250ms'') 7 = (250000000, None)"
proof -
  let ?env = "env_with ''RLQS_REPORTING_INTERVAL'' ''250ms''"
  have f: "load_file ?env [] = Inr default_config" by (simp add: load_file_def)
  then obtain cfg where cfg: "Load ?env [] = Inr cfg" by (simp add: Load_def)
  have parts: "list_all is_digit ''250''" "''250'' \<noteq> []" "unitMap ''ms'' = Some 1000000" "Getenv ?env ''RLQS_REPORTING_INTERVAL'' = ''250'' @ ''ms''"
    "decimal 0 ''250'' = 250"
    by (simp_all add: is_digit_def unitMap_def env_with_def digit_value_def less_eq_char_def)
  show ?thesis using cfg durations_read_back [OF parts(1-4) cfg f, of 7] parts(5) by simp
qed

end
