(* ===== verification/Engines.thy ===== *)
theory Engines
  imports Storage Config
begin

text \<open>
  The quota engines: the \<open>Engine\<close> interface and \<open>DefaultEngine\<close> (\<open>src/internal/quota/quota.go\<close>)
  and the policy engine with its first-match selection (\<open>src/internal/policy/policy.go\<close>).
  An interface value is its concrete type and the function its method computes. Regular expressions are a parameter
  \<open>compile\<close>: it either rejects a pattern or yields the matcher \<open>MatchString\<close>. The locale
  \<open>quota_engine\<close> states what both engines promise to the server.
\<close>

section \<open>Messages\<close>

text \<open>A protobuf duration, as \<open>durationpb.New\<close> builds it from a \<open>time.Duration\<close>.\<close>

datatype pb_duration = durationpb_New duration

datatype RateLimitUnit = SECOND | MINUTE | HOUR | DAY | MONTH | YEAR

datatype BlanketRule = ALLOW_ALL | DENY_ALL

record TokenBucket =
  MaxTokens :: uint32
  TokensPerFill :: uint32
  FillInterval :: pb_duration

datatype RateLimitStrategy =
    StrategyBlanketRule BlanketRule
  | StrategyRequestsPerTimeUnit uint64 RateLimitUnit
  | StrategyTokenBucket TokenBucket

record QuotaAssignmentAction =
  AssignmentTimeToLive :: "pb_duration option"
  RateLimitStrategyOf :: "RateLimitStrategy option"

datatype action_kind = QuotaAssignment QuotaAssignmentAction | AbandonAction | ActionUnset

record BucketAction =
  ActionBucketId :: "BucketId option"
  ActionKind :: action_kind

type_synonym process_usage = "go_context \<Rightarrow> string \<Rightarrow> UsageReport list \<Rightarrow> go_error + BucketAction list"

text \<open>
  An interface value: the concrete type it holds, which \<open>atomic.Value\<close> inspects, and its method.
\<close>

record Engine =
  ConcreteType :: string
  ProcessUsage :: process_usage

text \<open>The guard \<open>r.BucketId == nil || len(r.BucketId.GetBucket()) == 0\<close>, negated.\<close>

definition has_bucket :: "BucketId option \<Rightarrow> bool" where
  "has_bucket idp = (case idp of None \<Rightarrow> False | Some b \<Rightarrow> length (Bucket b) \<noteq> 0)"

section \<open>DefaultEngine\<close>

record DefaultEngineConfig =
  DefaultStrategy :: "RateLimitStrategy option"
  DefaultAssignmentTTL :: "duration option"

definition NewDefaultEngine :: "DefaultEngineConfig \<Rightarrow> DefaultEngineConfig" where
  "NewDefaultEngine cfg = cfg"

text \<open>The assignment built for a bucket: TTL and strategy are set only where configured.\<close>

definition assignment_of :: "duration option \<Rightarrow> RateLimitStrategy option \<Rightarrow> QuotaAssignmentAction" where
  "assignment_of ttl strategy =
     (let a = \<lparr>AssignmentTimeToLive = None, RateLimitStrategyOf = None\<rparr>;
          a = (case ttl of None \<Rightarrow> a | Some d \<Rightarrow> a\<lparr>AssignmentTimeToLive := Some (durationpb_New d)\<rparr>)
      in (case strategy of None \<Rightarrow> a | Some st \<Rightarrow> a\<lparr>RateLimitStrategyOf := Some st\<rparr>))"

fun DefaultEngine_actions :: "DefaultEngineConfig \<Rightarrow> UsageReport list \<Rightarrow> BucketAction list" where
  "DefaultEngine_actions cfg [] = []"
| "DefaultEngine_actions cfg (r # rs) =
     (if \<not> has_bucket (ReportBucketId r) then DefaultEngine_actions cfg rs
      else \<lparr>ActionBucketId = ReportBucketId r,
            ActionKind = QuotaAssignment (assignment_of (DefaultAssignmentTTL cfg) (DefaultStrategy cfg))\<rparr>
           # DefaultEngine_actions cfg rs)"

definition DefaultEngine_ProcessUsage :: "DefaultEngineConfig \<Rightarrow> process_usage" where
  "DefaultEngine_ProcessUsage cfg ctx domain reports =
     (if length reports = 0 then Inr [] else Inr (DefaultEngine_actions cfg reports))"

definition DefaultEngine_value :: "DefaultEngineConfig \<Rightarrow> Engine" where
  "DefaultEngine_value cfg =
     \<lparr>ConcreteType = ''*quota.DefaultEngine'', ProcessUsage = DefaultEngine_ProcessUsage cfg\<rparr>"

section \<open>Policies\<close>

type_synonym regex = "string \<Rightarrow> bool"

type_synonym regexp_Compile = "string \<Rightarrow> go_error + regex"

definition MaxPatternLength :: nat where "MaxPatternLength = 1024"

record Policy =
  DomainPattern :: string
  BucketKeyPattern :: string
  Strategy :: "RateLimitStrategy option"
  AssignmentTTL :: "duration option"
  DenyResponse :: "DenyResponseConfig option"
  domainRegex :: "regex option"
  bucketKeyRegex :: "regex option"

datatype pattern_error =
    DomainPatternTooLong nat
  | InvalidDomainPattern string go_error
  | BucketKeyPatternTooLong nat
  | InvalidBucketKeyPattern string go_error

datatype engine_error = PolicyError nat pattern_error | DefaultPolicyError pattern_error

definition compile_domain :: "regexp_Compile \<Rightarrow> Policy \<Rightarrow> pattern_error + Policy" where
  "compile_domain compile p =
     (if DomainPattern p = [] then Inr p
      else if length (DomainPattern p) > MaxPatternLength
      then Inl (DomainPatternTooLong (length (DomainPattern p)))
      else (case compile (DomainPattern p) of
              Inl e \<Rightarrow> Inl (InvalidDomainPattern (DomainPattern p) e)
            | Inr r \<Rightarrow> Inr (p\<lparr>domainRegex := Some r\<rparr>)))"

definition compile_bucketKey :: "regexp_Compile \<Rightarrow> Policy \<Rightarrow> pattern_error + Policy" where
  "compile_bucketKey compile p =
     (if BucketKeyPattern p = [] then Inr p
      else if length (BucketKeyPattern p) > MaxPatternLength
      then Inl (BucketKeyPatternTooLong (length (BucketKeyPattern p)))
      else (case compile (BucketKeyPattern p) of
              Inl e \<Rightarrow> Inl (InvalidBucketKeyPattern (BucketKeyPattern p) e)
            | Inr r \<Rightarrow> Inr (p\<lparr>bucketKeyRegex := Some r\<rparr>)))"

definition compilePatterns :: "regexp_Compile \<Rightarrow> Policy \<Rightarrow> pattern_error + Policy" where
  "compilePatterns compile p =
     (case compile_domain compile p of Inl e \<Rightarrow> Inl e | Inr p' \<Rightarrow> compile_bucketKey compile p')"

definition matches :: "Policy \<Rightarrow> string \<Rightarrow> BucketKey \<Rightarrow> bool" where
  "matches p domain bucketKey =
     (if (case domainRegex p of None \<Rightarrow> False | Some r \<Rightarrow> \<not> r domain) then False
      else if (case bucketKeyRegex p of None \<Rightarrow> False | Some r \<Rightarrow> \<not> r bucketKey) then False
      else True)"

record EngineConfig =
  Policies :: "Policy list"
  DefaultPolicy :: Policy

fun compile_policies :: "regexp_Compile \<Rightarrow> nat \<Rightarrow> Policy list \<Rightarrow> engine_error + Policy list" where
  "compile_policies compile i [] = Inr []"
| "compile_policies compile i (p # ps) =
     (case compilePatterns compile p of
        Inl e \<Rightarrow> Inl (PolicyError i e)
      | Inr p' \<Rightarrow> (case compile_policies compile (Suc i) ps of Inl e \<Rightarrow> Inl e | Inr ps' \<Rightarrow> Inr (p' # ps')))"

definition policy_New :: "regexp_Compile \<Rightarrow> EngineConfig \<Rightarrow> engine_error + EngineConfig" where
  "policy_New compile cfg =
     (case compile_policies compile 0 (Policies cfg) of
        Inl e \<Rightarrow> Inl e
      | Inr ps \<Rightarrow>
          (case compilePatterns compile (DefaultPolicy cfg) of
             Inl e \<Rightarrow> Inl (DefaultPolicyError e)
           | Inr dp \<Rightarrow> Inr (cfg\<lparr>Policies := ps, DefaultPolicy := dp\<rparr>)))"

text \<open>The search loop: the first policy that matches, if any.\<close>

fun find_policy :: "Policy list \<Rightarrow> string \<Rightarrow> BucketKey \<Rightarrow> Policy option" where
  "find_policy [] domain bucketKey = None"
| "find_policy (p # ps) domain bucketKey =
     (if matches p domain bucketKey then Some p else find_policy ps domain bucketKey)"

definition select_policy :: "EngineConfig \<Rightarrow> string \<Rightarrow> BucketKey \<Rightarrow> Policy" where
  "select_policy cfg domain bucketKey =
     (case find_policy (Policies cfg) domain bucketKey of None \<Rightarrow> DefaultPolicy cfg | Some p \<Rightarrow> p)"

fun Engine_actions :: "EngineConfig \<Rightarrow> string \<Rightarrow> UsageReport list \<Rightarrow> BucketAction list" where
  "Engine_actions cfg domain [] = []"
| "Engine_actions cfg domain (r # rs) =
     (if \<not> has_bucket (ReportBucketId r) then Engine_actions cfg domain rs
      else (let bucketKey = BucketKeyFromProto (ReportBucketId r);
                matchedPolicy = select_policy cfg domain bucketKey
            in \<lparr>ActionBucketId = ReportBucketId r,
                ActionKind = QuotaAssignment (assignment_of (AssignmentTTL matchedPolicy) (Strategy matchedPolicy))\<rparr>
               # Engine_actions cfg domain rs))"

definition Engine_ProcessUsage :: "EngineConfig \<Rightarrow> process_usage" where
  "Engine_ProcessUsage cfg ctx domain reports =
     (if length reports = 0 then Inr [] else Inr (Engine_actions cfg domain reports))"

definition Engine_value :: "EngineConfig \<Rightarrow> Engine" where
  "Engine_value cfg = \<lparr>ConcreteType = ''*policy.Engine'', ProcessUsage = Engine_ProcessUsage cfg\<rparr>"

section \<open>What an engine promises\<close>

definition is_abandon :: "BucketAction \<Rightarrow> bool" where
  "is_abandon a \<longleftrightarrow> ActionKind a = AbandonAction"

text \<open>
  The contract of a stateless assigning engine: it never fails, answers every report that names
  a bucket with one assignment for that bucket in report order, ignores the others, and decides
  from domain and bucket key alone (not from the reported usage or the context).
\<close>

locale quota_engine =
  fixes engine :: process_usage and decide :: "string \<Rightarrow> BucketKey \<Rightarrow> QuotaAssignmentAction"
  assumes ProcessUsage_eq: "engine ctx domain reports =
    Inr (map (\<lambda>r. \<lparr>ActionBucketId = ReportBucketId r,
                   ActionKind = QuotaAssignment (decide domain (BucketKeyFromProto (ReportBucketId r)))\<rparr>)
          (filter (\<lambda>r. has_bucket (ReportBucketId r)) reports))"
begin

lemma never_fails: "engine ctx domain reports \<noteq> Inl e"
  by (simp add: ProcessUsage_eq)

lemma never_abandons: "engine ctx domain reports = Inr as \<Longrightarrow> \<forall>a \<in> set as. \<not> is_abandon a"
  by (auto simp: ProcessUsage_eq is_abandon_def)

lemma one_action_per_bucket: "engine ctx domain reports = Inr as \<Longrightarrow>
    map ActionBucketId as = filter has_bucket (map ReportBucketId reports)"
  by (auto simp: ProcessUsage_eq filter_map comp_def)

lemma ProcessUsage_by_id: "engine ctx domain reports =
    Inr (map (\<lambda>b. \<lparr>ActionBucketId = b, ActionKind = QuotaAssignment (decide domain (BucketKeyFromProto b))\<rparr>)
          (filter has_bucket (map ReportBucketId reports)))"
  by (simp add: ProcessUsage_eq filter_map comp_def)

lemma usage_independent:
  "map ReportBucketId rs = map ReportBucketId rs' \<Longrightarrow> engine ctx domain rs = engine ctx' domain rs'"
  by (simp only: ProcessUsage_by_id)

end

lemma DefaultEngine_actions_eq:
  "DefaultEngine_actions cfg rs =
    map (\<lambda>r. \<lparr>ActionBucketId = ReportBucketId r,
             ActionKind = QuotaAssignment (assignment_of (DefaultAssignmentTTL cfg) (DefaultStrategy cfg))\<rparr>)
      (filter (\<lambda>r. has_bucket (ReportBucketId r)) rs)"
  by (induction rs) auto

interpretation default_engine: quota_engine "DefaultEngine_ProcessUsage cfg"
  "\<lambda>domain key. assignment_of (DefaultAssignmentTTL cfg) (DefaultStrategy cfg)" for cfg
  by unfold_locales (auto simp: DefaultEngine_ProcessUsage_def DefaultEngine_actions_eq)

definition policy_decision :: "EngineConfig \<Rightarrow> string \<Rightarrow> BucketKey \<Rightarrow> QuotaAssignmentAction" where
  "policy_decision cfg domain key =
     assignment_of (AssignmentTTL (select_policy cfg domain key)) (Strategy (select_policy cfg domain key))"

lemma Engine_actions_eq:
  "Engine_actions cfg domain rs =
    map (\<lambda>r. \<lparr>ActionBucketId = ReportBucketId r,
             ActionKind = QuotaAssignment (policy_decision cfg domain (BucketKeyFromProto (ReportBucketId r)))\<rparr>)
      (filter (\<lambda>r. has_bucket (ReportBucketId r)) rs)"
  by (induction rs) (auto simp: policy_decision_def Let_def)

interpretation policy_engine: quota_engine "Engine_ProcessUsage cfg" "policy_decision cfg" for cfg
  by unfold_locales (auto simp: Engine_ProcessUsage_def Engine_actions_eq)

section \<open>Correctness of policy selection\<close>

text \<open>When a configured pattern applies: the empty pattern always, others as their regex decides.\<close>

definition pattern_applies :: "regexp_Compile \<Rightarrow> string \<Rightarrow> string \<Rightarrow> bool" where
  "pattern_applies compile pat s \<longleftrightarrow> pat = [] \<or> (case compile pat of Inl e \<Rightarrow> False | Inr r \<Rightarrow> r s)"

definition policy_applies :: "regexp_Compile \<Rightarrow> string \<Rightarrow> BucketKey \<Rightarrow> Policy \<Rightarrow> bool" where
  "policy_applies compile domain key p \<longleftrightarrow>
     pattern_applies compile (DomainPattern p) domain \<and> pattern_applies compile (BucketKeyPattern p) key"

text \<open>The reference: the first configured policy that applies, the default policy otherwise.\<close>

definition chosen_policy :: "regexp_Compile \<Rightarrow> EngineConfig \<Rightarrow> string \<Rightarrow> BucketKey \<Rightarrow> Policy" where
  "chosen_policy compile cfg domain key =
     (case find (policy_applies compile domain key) (Policies cfg) of None \<Rightarrow> DefaultPolicy cfg | Some p \<Rightarrow> p)"

definition uncompiled :: "Policy \<Rightarrow> bool" where
  "uncompiled p \<longleftrightarrow> domainRegex p = None \<and> bucketKeyRegex p = None"

lemma compilePatterns_Inr:
  assumes "compilePatterns compile p = Inr p'" and "uncompiled p"
  shows "matches p' domain key \<longleftrightarrow> policy_applies compile domain key p"
    and "Strategy p' = Strategy p" and "AssignmentTTL p' = AssignmentTTL p"
  using assms
  by (auto simp: compilePatterns_def compile_domain_def compile_bucketKey_def matches_def uncompiled_def
      policy_applies_def pattern_applies_def split: sum.splits if_splits)

lemma compile_policies_Inr:
  "compile_policies compile i ps = Inr ps' \<Longrightarrow> list_all2 (\<lambda>p p'. compilePatterns compile p = Inr p') ps ps'"
  by (induction ps arbitrary: i ps') (auto split: sum.splits)

lemma find_policy_compiled:
  assumes "list_all2 (\<lambda>p p'. compilePatterns compile p = Inr p') ps ps'" and "\<forall>p \<in> set ps. uncompiled p"
  shows "rel_option (\<lambda>p p'. Strategy p' = Strategy p \<and> AssignmentTTL p' = AssignmentTTL p)
    (find (policy_applies compile domain key) ps) (find_policy ps' domain key)"
  using assms by (induction rule: list_all2_induct) (auto simp: compilePatterns_Inr)

lemma policy_New_Inr:
  assumes "policy_New compile cfg = Inr e"
  shows "list_all2 (\<lambda>p p'. compilePatterns compile p = Inr p') (Policies cfg) (Policies e)"
    and "compilePatterns compile (DefaultPolicy cfg) = Inr (DefaultPolicy e)"
  using assms by (auto simp: policy_New_def split: sum.splits dest: compile_policies_Inr)

lemma select_policy_compiled:
  assumes "policy_New compile cfg = Inr e"
    and "\<forall>p \<in> set (Policies cfg). uncompiled p" and "uncompiled (DefaultPolicy cfg)"
  shows "Strategy (select_policy e domain key) = Strategy (chosen_policy compile cfg domain key)
    \<and> AssignmentTTL (select_policy e domain key) = AssignmentTTL (chosen_policy compile cfg domain key)"
  using find_policy_compiled [OF policy_New_Inr(1) [OF assms(1)] assms(2), of domain key]
    compilePatterns_Inr(2,3) [OF policy_New_Inr(2) [OF assms(1)] assms(3)]
  by (auto simp: select_policy_def chosen_policy_def option_rel_Some1 rel_option_iff split: option.splits)

text \<open>
  The policy engine implements first-match selection: an engine built from a
  configuration answers every report that names a bucket with exactly one assignment for that
  bucket, in report order, carrying TTL and strategy of the first configured policy whose
  domain and bucket-key patterns apply, and those of the default policy when none applies. It
  never fails and never abandons a bucket.
\<close>

lemma Engine_ProcessUsage_first_match:
  assumes "policy_New compile cfg = Inr e"
    and "\<forall>p \<in> set (Policies cfg). uncompiled p" and "uncompiled (DefaultPolicy cfg)"
  shows "Engine_ProcessUsage e ctx domain reports =
    Inr (map (\<lambda>r. let p = chosen_policy compile cfg domain (BucketKeyFromProto (ReportBucketId r))
                   in \<lparr>ActionBucketId = ReportBucketId r,
                       ActionKind = QuotaAssignment (assignment_of (AssignmentTTL p) (Strategy p))\<rparr>)
          (filter (\<lambda>r. has_bucket (ReportBucketId r)) reports))"
  using select_policy_compiled [OF assms]
  by (simp add: policy_engine.ProcessUsage_eq policy_decision_def Let_def)

text \<open>A pattern language for examples: a pattern matches the strings that contain it; \<open>[\<close> is malformed.\<close>

fun contains_at :: "string \<Rightarrow> string \<Rightarrow> bool" where
  "contains_at [] s = True"
| "contains_at (p # ps) [] = False"
| "contains_at (p # ps) (c # cs) = (p = c \<and> contains_at ps cs)"

fun contains :: "string \<Rightarrow> string \<Rightarrow> bool" where
  "contains p [] = (p = [])"
| "contains p (c # cs) = (contains_at p (c # cs) \<or> contains p cs)"

definition literal_Compile :: regexp_Compile where
  "literal_Compile pat = (if CHR ''['' \<in> set pat then Inl ''missing closing ]'' else Inr (contains pat))"

abbreviation example_policy :: "string \<Rightarrow> string \<Rightarrow> RateLimitStrategy \<Rightarrow> Policy" where
  "example_policy dp kp st \<equiv> \<lparr>DomainPattern = dp, BucketKeyPattern = kp, Strategy = Some st,
     AssignmentTTL = Some Second, DenyResponse = None, domainRegex = None, bucketKeyRegex = None\<rparr>"

abbreviation example_config :: EngineConfig where
  "example_config \<equiv>
     \<lparr>Policies = [example_policy ''api'' '''' (StrategyBlanketRule DENY_ALL),
                  example_policy '''' ''name'' (StrategyBlanketRule ALLOW_ALL)],
      DefaultPolicy = example_policy '''' '''' (StrategyRequestsPerTimeUnit 5 SECOND)\<rparr>"

text \<open>The reasons a pattern is rejected, in the order the code checks them.\<close>

definition pattern_ok :: "regexp_Compile \<Rightarrow> string \<Rightarrow> bool" where
  "pattern_ok compile pat \<longleftrightarrow>
     pat = [] \<or> (length pat \<le> MaxPatternLength \<and> (\<exists>r. compile pat = Inr r))"

lemma compilePatterns_ok_iff:
  "(\<exists>p'. compilePatterns compile p = Inr p') \<longleftrightarrow>
    pattern_ok compile (DomainPattern p) \<and> pattern_ok compile (BucketKeyPattern p)"
  by (auto simp: compilePatterns_def compile_domain_def compile_bucketKey_def pattern_ok_def
      split: sum.splits if_splits)

lemma compile_policies_Inl:
  "compile_policies compile i ps = Inl err \<Longrightarrow>
    \<exists>j e. err = PolicyError (i + j) e \<and> j < length ps \<and> compilePatterns compile (ps ! j) = Inl e
      \<and> (\<forall>l < j. \<exists>p'. compilePatterns compile (ps ! l) = Inr p')"
proof (induction ps arbitrary: i)
  case (Cons p ps)
  show ?case
  proof (cases "compilePatterns compile p")
    case (Inl e)
    then show ?thesis using Cons.prems by (intro exI [of _ 0] exI [of _ e]) simp
  next
    case (Inr p')
    then obtain j e where "err = PolicyError (Suc i + j) e" "j < length ps"
      "compilePatterns compile (ps ! j) = Inl e" "\<forall>l < j. \<exists>p'. compilePatterns compile (ps ! l) = Inr p'"
      using Cons.IH [of "Suc i"] Cons.prems by (auto split: sum.splits)
    with Inr show ?thesis
      by (intro exI [of _ "Suc j"] exI [of _ e]) (auto simp: less_Suc_eq_0_disj)
  qed
qed simp

lemma compile_policies_total:
  "(\<exists>ps'. compile_policies compile i ps = Inr ps') \<longleftrightarrow> (\<forall>p \<in> set ps. \<exists>p'. compilePatterns compile p = Inr p')"
proof (induction ps arbitrary: i)
  case (Cons p ps)
  from Cons.IH [of "Suc i"] show ?case
    by (cases "compile_policies compile (Suc i) ps") (auto split: sum.splits)
qed simp



text \<open>
  Assignments come from static configuration only: both engines give the same answer to
  two batches of reports that name the same buckets in the same domain, whatever usage counts,
  elapsed times and contexts come with them.
\<close>

theorem engines_ignore_usage:
  assumes "map ReportBucketId rs = map ReportBucketId rs'"
  shows "Engine_ProcessUsage e ctx domain rs = Engine_ProcessUsage e ctx' domain rs'
    \<and> DefaultEngine_ProcessUsage cfg ctx domain rs = DefaultEngine_ProcessUsage cfg ctx' domain rs'"
  using policy_engine.usage_independent [OF assms] default_engine.usage_independent [OF assms] by blast

theorem engines_ignore_usage_witness:
  "Engine_ProcessUsage example_config Background ''web''
     [\<lparr>ReportBucketId = Some \<lparr>Bucket = [(''name'', ''x'')]\<rparr>, NumRequestsAllowed = 1, NumRequestsDenied = 0, TimeElapsed = 0\<rparr>] =
   Engine_ProcessUsage example_config Background ''web''
     [\<lparr>ReportBucketId = Some \<lparr>Bucket = [(''name'', ''x'')]\<rparr>, NumRequestsAllowed = 99, NumRequestsDenied = 7, TimeElapsed = 5\<rparr>]"
  by (rule engines_ignore_usage [THEN conjunct1]) simp

end
