(* ===== verification/Metrics.thy ===== *)
theory Metrics
  imports Engines
begin

text \<open>
  The package \<open>internal/metrics\<close>: the Prometheus instruments the server updates
  (\<open>src/internal/metrics/metrics.go\<close>) and the classifier that bounds the values of their
  domain label (\<open>src/internal/metrics/domain.go\<close>). Gauges and counters are integers: the code
  only ever adds whole numbers to them. Of the duration histogram the model keeps the number of
  observations.
\<close>

section \<open>Instruments\<close>

record Metrics =
  ActiveStreams :: int
  ActiveBuckets :: "string \<Rightarrow> int"
  UsageReportsTotal :: "string \<Rightarrow> int"
  AssignmentsTotal :: "string \<Rightarrow> int"
  EngineDuration :: nat

definition fresh_metrics :: Metrics where
  "fresh_metrics = \<lparr>ActiveStreams = 0, ActiveBuckets = (\<lambda>_. 0), UsageReportsTotal = (\<lambda>_. 0),
     AssignmentsTotal = (\<lambda>_. 0), EngineDuration = 0\<rparr>"

text \<open>\<open>WithLabelValues(l).Add(x)\<close> on an instrument with one label.\<close>

definition add_label :: "string \<Rightarrow> int \<Rightarrow> (string \<Rightarrow> int) \<Rightarrow> string \<Rightarrow> int" where
  "add_label l x g = g(l := g l + x)"

lemma add_label_apply [simp]: "add_label l x g l' = g l' + (if l' = l then x else 0)"
  by (simp add: add_label_def)

section \<open>The domain classifier\<close>

definition UnknownDomain :: string where "UnknownDomain = ''__unknown__''"

record DomainClassifier =
  patterns :: "regex list"
  known :: "(string, bool) gomap"
  maxDomains :: int

datatype classifier_error = InvalidClassifierPattern string go_error

fun compile_domain_patterns :: "regexp_Compile \<Rightarrow> string list \<Rightarrow> classifier_error + regex list" where
  "compile_domain_patterns compile [] = Inr []"
| "compile_domain_patterns compile (p # ps) =
     (if p = [] then compile_domain_patterns compile ps
      else (case compile p of
              Inl e \<Rightarrow> Inl (InvalidClassifierPattern p e)
            | Inr r \<Rightarrow> (case compile_domain_patterns compile ps of Inl e \<Rightarrow> Inl e | Inr rs \<Rightarrow> Inr (r # rs))))"

definition NewDomainClassifier :: "regexp_Compile \<Rightarrow> string list \<Rightarrow> int \<Rightarrow> classifier_error + DomainClassifier" where
  "NewDomainClassifier compile pats n =
     (let n = (if n \<le> 0 then 100 else n)
      in (case compile_domain_patterns compile pats of
            Inl e \<Rightarrow> Inl e
          | Inr compiled \<Rightarrow> Inr \<lparr>patterns = compiled, known = [], maxDomains = n\<rparr>))"

text \<open>The three parts of \<open>Classify\<close>: under the read lock, without a lock, under the write lock.\<close>

definition is_known :: "DomainClassifier \<Rightarrow> string \<Rightarrow> bool" where
  "is_known c domain = get_or False (known c) domain"

definition pattern_matched :: "DomainClassifier \<Rightarrow> string \<Rightarrow> bool" where
  "pattern_matched c domain =
     (let matched = length (patterns c) = 0
      in if \<not> matched then list_ex (\<lambda>p. p domain) (patterns c) else matched)"

definition admit :: "string \<Rightarrow> DomainClassifier \<Rightarrow> string \<times> DomainClassifier" where
  "admit domain c =
     (if is_known c domain then (domain, c)
      else if int (length (known c)) \<ge> maxDomains c then (UnknownDomain, c)
      else (domain, c\<lparr>known := AList.update domain True (known c)\<rparr>))"

definition Classify :: "string \<Rightarrow> DomainClassifier \<Rightarrow> string \<times> DomainClassifier" where
  "Classify domain c =
     (if is_known c domain then (domain, c)
      else if \<not> pattern_matched c domain then (UnknownDomain, c)
      else admit domain c)"

section \<open>Bounded label cardinality\<close>

definition classifier_inv :: "DomainClassifier \<Rightarrow> bool" where
  "classifier_inv c \<longleftrightarrow>
     wf_map (known c) \<and> (\<forall>(d, b) \<in> set (known c). b) \<and> int (length (known c)) \<le> maxDomains c
     \<and> 0 < maxDomains c \<and> (\<forall>d \<in> set (keys (known c)). pattern_matched c d)"

lemma is_known_iff:
  assumes "classifier_inv c"
  shows "is_known c d \<longleftrightarrow> d \<in> set (keys (known c))"
proof (cases "map_of (known c) d")
  case None
  then have "d \<notin> set (keys (known c))" by (simp only: map_of_None_keys) simp
  with None show ?thesis by (simp add: is_known_def get_or_def)
next
  case (Some b)
  then have "(d, b) \<in> set (known c)" by (rule map_of_SomeD)
  with assms Some show ?thesis by (force simp: is_known_def get_or_def classifier_inv_def)
qed

lemma pattern_matched_update [simp]: "pattern_matched (c\<lparr>known := m\<rparr>) d = pattern_matched c d"
  by (simp add: pattern_matched_def)

lemma admit_inv: "classifier_inv c \<Longrightarrow> pattern_matched c d \<Longrightarrow> classifier_inv (snd (admit d c))"
  using is_known_iff [of c d]
  by (auto simp: admit_def classifier_inv_def keys_update_new)

lemma Classify_inv: "classifier_inv c \<Longrightarrow> classifier_inv (snd (Classify d c))"
  by (simp add: Classify_def admit_inv)

lemma Classify_maxDomains: "maxDomains (snd (Classify d c)) = maxDomains c"
  by (simp add: Classify_def admit_def)

lemma Classify_label:
  assumes "classifier_inv c"
  shows "fst (Classify d c) \<in> insert UnknownDomain (set (keys (known (snd (Classify d c)))))"
  using assms by (auto simp: Classify_def admit_def is_known_iff gomap_simps)

lemma Classify_known_mono: "set (keys (known c)) \<subseteq> set (keys (known (snd (Classify d c))))"
  by (auto simp: Classify_def admit_def gomap_simps)

fun classify_all :: "string list \<Rightarrow> DomainClassifier \<Rightarrow> string list \<times> DomainClassifier" where
  "classify_all [] c = ([], c)"
| "classify_all (d # ds) c =
     (case Classify d c of (l, c') \<Rightarrow> (case classify_all ds c' of (ls, c'') \<Rightarrow> (l # ls, c'')))"

lemma classify_all_labels:
  assumes "classifier_inv c"
  shows "classifier_inv (snd (classify_all ds c))
    \<and> maxDomains (snd (classify_all ds c)) = maxDomains c
    \<and> set (keys (known c)) \<subseteq> set (keys (known (snd (classify_all ds c))))
    \<and> set (fst (classify_all ds c)) \<subseteq> insert UnknownDomain (set (keys (known (snd (classify_all ds c)))))"
  using assms
proof (induction ds arbitrary: c)
  case (Cons d ds)
  obtain l c' where c': "Classify d c = (l, c')" by (cases "Classify d c")
  have inv: "classifier_inv c'" and lab: "l \<in> insert UnknownDomain (set (keys (known c')))"
    and mx: "maxDomains c' = maxDomains c" and mono: "set (keys (known c)) \<subseteq> set (keys (known c'))"
    using Classify_inv [OF Cons.prems, of d] Classify_label [OF Cons.prems, of d]
      Classify_maxDomains [of d c] Classify_known_mono [of c d] c' by simp_all
  obtain ls c'' where c'': "classify_all ds c' = (ls, c'')" by (cases "classify_all ds c'")
  show ?case using Cons.IH [OF inv] lab mx mono unfolding c'' by (simp add: c' c'') blast
qed simp

lemma NewDomainClassifier_inv:
  "NewDomainClassifier compile pats n = Inr c \<Longrightarrow>
    classifier_inv c \<and> maxDomains c = (if n \<le> 0 then 100 else n)"
  by (auto simp: NewDomainClassifier_def classifier_inv_def Let_def split: sum.splits if_splits)

text \<open>
  C31. Label cardinality is bounded: whatever domains clients send, and however many, a
  classifier built with cap \<open>n\<close> (100 when \<open>n\<close> is not positive) returns at most \<open>n + 1\<close>
  different labels.
\<close>

theorem Classify_bounds_labels:
  assumes "NewDomainClassifier compile pats n = Inr c"
  shows "int (card (set (fst (classify_all ds c)))) \<le> (if n \<le> 0 then 100 else n) + 1"
proof -
  let ?c = "snd (classify_all ds c)"
  have inv: "classifier_inv c" and cap: "maxDomains c = (if n \<le> 0 then 100 else n)"
    using NewDomainClassifier_inv [OF assms] by simp_all
  note all = classify_all_labels [OF inv, of ds]
  have "card (set (fst (classify_all ds c))) \<le> card (insert UnknownDomain (set (keys (known ?c))))"
    using all by (intro card_mono) auto
  also have "\<dots> \<le> Suc (length (keys (known ?c)))"
    using card_length [of "UnknownDomain # keys (known ?c)"] by simp
  finally show ?thesis using all cap by (simp add: classifier_inv_def)
qed

theorem Classify_bounds_labels_witness:
  "\<exists>c. NewDomainClassifier literal_Compile [''api''] 1 = Inr c
     \<and> int (card (set (fst (classify_all [''api1'', ''api2'', ''web''] c)))) \<le> 2"
proof -
  have "NewDomainClassifier literal_Compile [''api''] 1 =
      Inr \<lparr>patterns = [contains ''api''], known = [], maxDomains = 1\<rparr>"
    by (simp add: NewDomainClassifier_def literal_Compile_def Let_def)
  with Classify_bounds_labels [OF this, of "[''api1'', ''api2'', ''web'']"] show ?thesis by auto
qed

text \<open>
  Which label a domain gets: itself if it was admitted before, or if it matches a
  configured pattern (any domain when there are none) and the cap is not reached, in which
  case it is admitted; the overflow label otherwise. An admitted domain keeps its label under
  every later classification.
\<close>

theorem Classify_characterised:
  assumes "classifier_inv c"
  shows "fst (Classify d c) =
      (if d \<in> set (keys (known c))
          \<or> ((patterns c = [] \<or> (\<exists>p \<in> set (patterns c). p d)) \<and> int (length (known c)) < maxDomains c)
       then d else UnknownDomain)
    \<and> (d \<in> set (keys (known c)) \<longrightarrow> fst (Classify d (snd (classify_all ds c))) = d)"
proof
  show "fst (Classify d c) =
      (if d \<in> set (keys (known c))
          \<or> ((patterns c = [] \<or> (\<exists>p \<in> set (patterns c). p d)) \<and> int (length (known c)) < maxDomains c)
       then d else UnknownDomain)"
    using is_known_iff [OF assms, of d]
    by (auto simp: Classify_def admit_def pattern_matched_def list_ex_iff Let_def)
  show "d \<in> set (keys (known c)) \<longrightarrow> fst (Classify d (snd (classify_all ds c))) = d"
    using classify_all_labels [OF assms, of ds] is_known_iff [of "snd (classify_all ds c)" d]
    by (auto simp: Classify_def)
qed

theorem Classify_characterised_witness:
  "fst (Classify ''web'' \<lparr>patterns = [contains ''api''], known = [(''api1'', True)], maxDomains = 1\<rparr>) = UnknownDomain
   \<and> fst (Classify ''api1'' (snd (classify_all [''api2''] \<lparr>patterns = [contains ''api''], known = [(''api1'', True)], maxDomains = 1\<rparr>))) = ''api1''"
proof -
  let ?c = "\<lparr>patterns = [contains ''api''], known = [(''api1'', True)], maxDomains = 1\<rparr>"
  have inv: "classifier_inv ?c"
    by (simp add: classifier_inv_def pattern_matched_def)
  show ?thesis
    using Classify_characterised [OF inv, of "''web''" "[]"] Classify_characterised [OF inv, of "''api1''" "[''api2'']"]
    by simp
qed

end
