(* ===== verification/Server.thy ===== *)
theory Server
  imports Metrics
begin

text \<open>
  The RLQS protocol server (\<open>src/internal/server/server.go\<close>): streams, domain binding,
  subscriptions with reference counts, the message handler with all its guards, cleanup,
  proactive pushes after an engine swap. The store is any \<^typ>\<open>'st BucketStore\<close> and the engine
  any \<^typ>\<open>Engine\<close>. The Go heap of \<open>streamState\<close> objects is a map from pointers (numbers) to
  states; \<open>streams\<close> is the set of registered pointers. A gRPC stream is its context and what
  \<open>Send\<close> returns after the responses delivered so far. Each handler call is one atomic step
  here.
\<close>

section \<open>Messages, errors and state\<close>

record BucketQuotaUsage =
  GetBucketId :: "BucketId option"
  GetNumRequestsAllowed :: uint64
  GetNumRequestsDenied :: uint64
  GetTimeElapsed :: duration

record RateLimitQuotaUsageReports =
  GetDomain :: string
  GetBucketQuotaUsages :: "BucketQuotaUsage list"

record RateLimitQuotaResponse =
  GetBucketAction :: "BucketAction list"

datatype codes = InvalidArgument | ResourceExhausted | Internal

datatype status_msg =
    FirstMessageDomain
  | DomainMismatch string string
  | TooManyReports nat int
  | TooManyEntries nat int
  | EmptyKeyOrValue
  | KeyTooLong nat int
  | ValueTooLong nat int
  | MaxBucketsExceeded int
  | EngineFailed go_error
  | PanicRecovered string

datatype rpc_error = Status codes status_msg | TransportError go_error

record grpc_stream =
  StreamCtx :: go_context
  Send :: "RateLimitQuotaResponse list \<Rightarrow> RateLimitQuotaResponse \<Rightarrow> go_error option"

record streamState =
  domain :: string
  metricDomain :: string
  domainBound :: bool
  subscriptions :: "(BucketKey, BucketId) gomap"
  stream :: grpc_stream
  delivered :: "RateLimitQuotaResponse list"

record 'st RLQSServer =
  store :: 'st
  engine :: Engine
  domainClassifier :: DomainClassifier
  maxBucketsPerStream :: int
  maxReportsPerMessage :: int
  maxBucketEntries :: int
  maxBucketKeyLen :: int
  maxBucketValueLen :: int
  engineTimeout :: duration
  heap :: "nat \<Rightarrow> streamState"
  nextPtr :: nat
  streams :: "nat list"
  bucketRefs :: "(BucketKey, int) gomap"
  pushes :: "Engine list"
  metrics :: Metrics

text \<open>\<open>pushes\<close> holds the goroutines started by \<open>SwapEngine\<close> that have not run yet.\<close>

definition new_stream :: "grpc_stream \<Rightarrow> streamState" where
  "new_stream g = \<lparr>domain = [], metricDomain = [], domainBound = False, subscriptions = [],
     stream = g, delivered = []\<rparr>"

definition default_classifier :: "regexp_Compile \<Rightarrow> int \<Rightarrow> DomainClassifier" where
  "default_classifier compile n =
     (case NewDomainClassifier compile [] n of
        Inr c \<Rightarrow> c
      | Inl e \<Rightarrow> \<lparr>patterns = [], known = [], maxDomains = 0\<rparr>)"

definition NewRLQS ::
  "regexp_Compile \<Rightarrow> 'st \<Rightarrow> Engine \<Rightarrow> ServerConfig \<Rightarrow> DomainClassifier option \<Rightarrow> 'st RLQSServer" where
  "NewRLQS compile st eng cfg classifier =
     \<lparr>store = st, engine = eng,
      domainClassifier =
        (case classifier of None \<Rightarrow> default_classifier compile (MaxMetricDomains cfg) | Some c \<Rightarrow> c),
      maxBucketsPerStream = MaxBucketsPerStream cfg,
      maxReportsPerMessage = MaxReportsPerMessage cfg,
      maxBucketEntries = MaxBucketEntries cfg,
      maxBucketKeyLen = MaxBucketKeyLen cfg,
      maxBucketValueLen = MaxBucketValueLen cfg,
      engineTimeout = EngineTimeout cfg,
      heap = (\<lambda>_. new_stream \<lparr>StreamCtx = Background, Send = (\<lambda>_ _. None)\<rparr>),
      nextPtr = 0, streams = [], bucketRefs = [], pushes = [], metrics = fresh_metrics\<rparr>"

definition upd_stream :: "nat \<Rightarrow> (streamState \<Rightarrow> streamState) \<Rightarrow> 'st RLQSServer \<Rightarrow> 'st RLQSServer" where
  "upd_stream sid f s = s\<lparr>heap := (heap s)(sid := f (heap s sid))\<rparr>"

definition upd_metrics :: "(Metrics \<Rightarrow> Metrics) \<Rightarrow> 'st RLQSServer \<Rightarrow> 'st RLQSServer" where
  "upd_metrics f s = s\<lparr>metrics := f (metrics s)\<rparr>"

section \<open>Domain binding\<close>

definition SwapDomainClassifier :: "DomainClassifier \<Rightarrow> 'st RLQSServer \<Rightarrow> 'st RLQSServer" where
  "SwapDomainClassifier c s = s\<lparr>domainClassifier := c\<rparr>"

definition classifyDomain :: "string \<Rightarrow> 'st RLQSServer \<Rightarrow> string \<times> 'st RLQSServer" where
  "classifyDomain d s =
     (case Classify d (domainClassifier s) of (label, c) \<Rightarrow> (label, s\<lparr>domainClassifier := c\<rparr>))"

definition bind_domain ::
  "nat \<Rightarrow> RateLimitQuotaUsageReports \<Rightarrow> 'st RLQSServer \<Rightarrow> 'st RLQSServer \<times> rpc_error option" where
  "bind_domain sid req s =
     (if \<not> domainBound (heap s sid) \<and> GetDomain req = []
      then (s, Some (Status InvalidArgument FirstMessageDomain))
      else
        let s1 = (if \<not> domainBound (heap s sid)
                  then (case classifyDomain (GetDomain req) s of
                          (label, s') \<Rightarrow>
                            upd_stream sid (\<lambda>ss. ss\<lparr>domain := GetDomain req, metricDomain := label,
                                                    domainBound := True\<rparr>) s')
                  else s)
        in if GetDomain req \<noteq> [] \<and> GetDomain req \<noteq> domain (heap s1 sid)
           then (s1, Some (Status InvalidArgument (DomainMismatch (domain (heap s1 sid)) (GetDomain req))))
           else (s1, None))"

section \<open>Tracking usages\<close>

fun validate_entries :: "int \<Rightarrow> int \<Rightarrow> (string \<times> string) list \<Rightarrow> rpc_error option" where
  "validate_entries maxKey maxValue [] = None"
| "validate_entries maxKey maxValue ((k, v) # m) =
     (if k = [] \<or> v = [] then Some (Status InvalidArgument EmptyKeyOrValue)
      else if maxKey > 0 \<and> int (length k) > maxKey
      then Some (Status InvalidArgument (KeyTooLong (length k) maxKey))
      else if maxValue > 0 \<and> int (length v) > maxValue
      then Some (Status InvalidArgument (ValueTooLong (length v) maxValue))
      else validate_entries maxKey maxValue m)"

definition validate_bucket :: "'st RLQSServer \<Rightarrow> (string, string) gomap \<Rightarrow> rpc_error option" where
  "validate_bucket s bucket =
     (if maxBucketEntries s > 0 \<and> int (length bucket) > maxBucketEntries s
      then Some (Status InvalidArgument (TooManyEntries (length bucket) (maxBucketEntries s)))
      else validate_entries (maxBucketKeyLen s) (maxBucketValueLen s) bucket)"

text \<open>The first report for a bucket subscribes the stream to it and counts the reference.\<close>

definition subscribe ::
  "nat \<Rightarrow> BucketKey \<Rightarrow> BucketId \<Rightarrow> 'st RLQSServer \<Rightarrow> 'st RLQSServer \<times> rpc_error option" where
  "subscribe sid key bid s =
     (let ss = heap s sid in
      if key \<in> set (keys (subscriptions ss)) then (s, None)
      else if maxBucketsPerStream s > 0 \<and> int (length (subscriptions ss)) \<ge> maxBucketsPerStream s
      then (s, Some (Status ResourceExhausted (MaxBucketsExceeded (maxBucketsPerStream s))))
      else
        let s1 = upd_stream sid (\<lambda>ss. ss\<lparr>subscriptions := AList.update key bid (subscriptions ss)\<rparr>) s;
            scopedKey = DomainScopedKey (domain ss) key;
            s2 = s1\<lparr>bucketRefs := AList.update scopedKey (get_or 0 (bucketRefs s1) scopedKey + 1) (bucketRefs s1)\<rparr>;
            s3 = upd_metrics (\<lambda>m. m\<lparr>ActiveBuckets := add_label (metricDomain ss) 1 (ActiveBuckets m)\<rparr>) s2
        in (s3, None))"

definition report_of :: "BucketQuotaUsage \<Rightarrow> UsageReport" where
  "report_of u = \<lparr>ReportBucketId = GetBucketId u, NumRequestsAllowed = GetNumRequestsAllowed u,
     NumRequestsDenied = GetNumRequestsDenied u, TimeElapsed = GetTimeElapsed u\<rparr>"

text \<open>The store's error is logged and dropped.\<close>

definition record_report ::
  "'st BucketStore \<Rightarrow> go_context \<Rightarrow> nat \<Rightarrow> UsageReport \<Rightarrow> 'st RLQSServer \<Rightarrow> 'st RLQSServer" where
  "record_report ops ctx sid r s =
     (case RecordUsage ops ctx (domain (heap s sid)) r (store s) of (st, err) \<Rightarrow> s\<lparr>store := st\<rparr>)"

text \<open>One iteration of the loop over the usages: an error, a skipped usage or a report.\<close>

definition track_usage ::
  "'st BucketStore \<Rightarrow> go_context \<Rightarrow> nat \<Rightarrow> BucketQuotaUsage \<Rightarrow> 'st RLQSServer
    \<Rightarrow> 'st RLQSServer \<times> (rpc_error + UsageReport option)" where
  "track_usage ops ctx sid u s =
     (case GetBucketId u of
        None \<Rightarrow> (s, Inr None)
      | Some bid \<Rightarrow>
          if length (Bucket bid) = 0 then (s, Inr None)
          else (case validate_bucket s (Bucket bid) of
                  Some e \<Rightarrow> (s, Inl e)
                | None \<Rightarrow>
                    (case subscribe sid (BucketKeyFromProto (Some bid)) bid s of
                       (s1, Some e) \<Rightarrow> (s1, Inl e)
                     | (s1, None) \<Rightarrow> (record_report ops ctx sid (report_of u) s1, Inr (Some (report_of u))))))"

fun track_usages ::
  "'st BucketStore \<Rightarrow> go_context \<Rightarrow> nat \<Rightarrow> BucketQuotaUsage list \<Rightarrow> 'st RLQSServer
    \<Rightarrow> 'st RLQSServer \<times> (rpc_error + UsageReport list)" where
  "track_usages ops ctx sid [] s = (s, Inr [])"
| "track_usages ops ctx sid (u # us) s =
     (case track_usage ops ctx sid u s of
        (s1, Inl e) \<Rightarrow> (s1, Inl e)
      | (s1, Inr ro) \<Rightarrow>
          (case track_usages ops ctx sid us s1 of
             (s2, Inl e) \<Rightarrow> (s2, Inl e)
           | (s2, Inr rs) \<Rightarrow> (s2, Inr (case ro of None \<Rightarrow> rs | Some r \<Rightarrow> r # rs))))"

section \<open>Releasing references\<close>

definition release_ref ::
  "'st BucketStore \<Rightarrow> go_context \<Rightarrow> string \<Rightarrow> BucketKey \<Rightarrow> 'st RLQSServer \<Rightarrow> 'st RLQSServer" where
  "release_ref ops ctx d key s =
     (let scopedKey = DomainScopedKey d key;
          s1 = s\<lparr>bucketRefs := AList.update scopedKey (get_or 0 (bucketRefs s) scopedKey - 1) (bucketRefs s)\<rparr>
      in if get_or 0 (bucketRefs s1) scopedKey \<le> 0
         then (let s2 = s1\<lparr>bucketRefs := AList.delete scopedKey (bucketRefs s1)\<rparr>
               in (case RemoveBucket ops ctx d key (store s2) of (st, err) \<Rightarrow> s2\<lparr>store := st\<rparr>))
         else s1)"

definition dec_active_buckets :: "string \<Rightarrow> 'st RLQSServer \<Rightarrow> 'st RLQSServer" where
  "dec_active_buckets label s =
     upd_metrics (\<lambda>m. m\<lparr>ActiveBuckets := add_label label (- 1) (ActiveBuckets m)\<rparr>) s"

definition abandon_action ::
  "'st BucketStore \<Rightarrow> go_context \<Rightarrow> nat \<Rightarrow> BucketAction \<Rightarrow> 'st RLQSServer \<Rightarrow> 'st RLQSServer" where
  "abandon_action ops ctx sid a s =
     (if is_abandon a then
        let ss = heap s sid;
            key = BucketKeyFromProto (ActionBucketId a)
        in if key \<in> set (keys (subscriptions ss))
           then dec_active_buckets (metricDomain ss)
                  (release_ref ops ctx (domain ss) key
                    (upd_stream sid (\<lambda>ss. ss\<lparr>subscriptions := AList.delete key (subscriptions ss)\<rparr>) s))
           else s
      else s)"

fun abandon_actions ::
  "'st BucketStore \<Rightarrow> go_context \<Rightarrow> nat \<Rightarrow> BucketAction list \<Rightarrow> 'st RLQSServer \<Rightarrow> 'st RLQSServer" where
  "abandon_actions ops ctx sid [] s = s"
| "abandon_actions ops ctx sid (a # as) s = abandon_actions ops ctx sid as (abandon_action ops ctx sid a s)"

section \<open>Handling a message\<close>

definition engine_ctx :: "go_context \<Rightarrow> 'st RLQSServer \<Rightarrow> go_context" where
  "engine_ctx ctx s = (if sint (engineTimeout s) > 0 then WithTimeout ctx (engineTimeout s) else ctx)"

definition send_response ::
  "nat \<Rightarrow> RateLimitQuotaResponse \<Rightarrow> 'st RLQSServer \<Rightarrow> 'st RLQSServer \<times> rpc_error option" where
  "send_response sid resp s =
     (case Send (stream (heap s sid)) (delivered (heap s sid)) resp of
        Some e \<Rightarrow> (s, Some (TransportError e))
      | None \<Rightarrow> (upd_stream sid (\<lambda>ss. ss\<lparr>delivered := delivered ss @ [resp]\<rparr>) s, None))"

definition add_assignments :: "string \<Rightarrow> nat \<Rightarrow> 'st RLQSServer \<Rightarrow> 'st RLQSServer" where
  "add_assignments label n s =
     upd_metrics (\<lambda>m. m\<lparr>AssignmentsTotal := add_label label (int n) (AssignmentsTotal m)\<rparr>) s"

definition count_reports :: "string \<Rightarrow> nat \<Rightarrow> 'st RLQSServer \<Rightarrow> 'st RLQSServer" where
  "count_reports label n s =
     upd_metrics (\<lambda>m. m\<lparr>UsageReportsTotal := add_label label (int n) (UsageReportsTotal m)\<rparr>) s"

text \<open>From the built reports to the response: metrics, engine, abandons, send.\<close>

definition answer_reports ::
  "'st BucketStore \<Rightarrow> go_context \<Rightarrow> nat \<Rightarrow> UsageReport list \<Rightarrow> 'st RLQSServer
    \<Rightarrow> 'st RLQSServer \<times> rpc_error option" where
  "answer_reports ops ctx sid reports s =
     (let ss = heap s sid;
          s1 = count_reports (metricDomain ss) (length reports) s;
          result = ProcessUsage (engine s1) (engine_ctx ctx s1) (domain ss) reports;
          s2 = upd_metrics (\<lambda>m. m\<lparr>EngineDuration := Suc (EngineDuration m)\<rparr>) s1
      in case result of
           Inl e \<Rightarrow> (s2, Some (Status Internal (EngineFailed e)))
         | Inr actions \<Rightarrow>
             if length actions = 0 then (s2, None)
             else send_response sid \<lparr>GetBucketAction = actions\<rparr>
                    (abandon_actions ops ctx sid actions
                      (add_assignments (metricDomain ss) (length actions) s2)))"

definition handleMessage ::
  "'st BucketStore \<Rightarrow> nat \<Rightarrow> RateLimitQuotaUsageReports \<Rightarrow> 'st RLQSServer
    \<Rightarrow> 'st RLQSServer \<times> rpc_error option" where
  "handleMessage ops sid req s =
     (let ctx = StreamCtx (stream (heap s sid)) in
      case bind_domain sid req s of
        (s1, Some e) \<Rightarrow> (s1, Some e)
      | (s1, None) \<Rightarrow>
          (let usages = GetBucketQuotaUsages req in
           if length usages = 0 then (s1, None)
           else if maxReportsPerMessage s1 > 0 \<and> int (length usages) > maxReportsPerMessage s1
           then (s1, Some (Status ResourceExhausted (TooManyReports (length usages) (maxReportsPerMessage s1))))
           else (case track_usages ops ctx sid usages s1 of
                   (s2, Inl e) \<Rightarrow> (s2, Some e)
                 | (s2, Inr reports) \<Rightarrow> answer_reports ops ctx sid reports s2)))"

section \<open>The stream's life cycle\<close>

fun cleanup_keys ::
  "'st BucketStore \<Rightarrow> string \<Rightarrow> string \<Rightarrow> BucketKey list \<Rightarrow> 'st RLQSServer \<Rightarrow> 'st RLQSServer" where
  "cleanup_keys ops d label [] s = s"
| "cleanup_keys ops d label (key # ks) s =
     cleanup_keys ops d label ks (release_ref ops Background d key (dec_active_buckets label s))"

definition cleanupStream :: "'st BucketStore \<Rightarrow> nat \<Rightarrow> 'st RLQSServer \<Rightarrow> 'st RLQSServer" where
  "cleanupStream ops sid s =
     (let s1 = s\<lparr>streams := remove1 sid (streams s)\<rparr>;
          ss = heap s1 sid
      in if \<not> domainBound ss then s1
         else cleanup_keys ops (domain ss) (metricDomain ss) (keys (subscriptions ss)) s1)"

definition open_stream :: "grpc_stream \<Rightarrow> 'st RLQSServer \<Rightarrow> nat \<times> 'st RLQSServer" where
  "open_stream g s =
     (let sid = nextPtr s;
          s1 = s\<lparr>heap := (heap s)(sid := new_stream g), nextPtr := Suc sid, streams := streams s @ [sid]\<rparr>
      in (sid, upd_metrics (\<lambda>m. m\<lparr>ActiveStreams := ActiveStreams m + 1\<rparr>) s1))"

definition close_stream :: "'st BucketStore \<Rightarrow> nat \<Rightarrow> 'st RLQSServer \<Rightarrow> 'st RLQSServer" where
  "close_stream ops sid s =
     cleanupStream ops sid (upd_metrics (\<lambda>m. m\<lparr>ActiveStreams := ActiveStreams m - 1\<rparr>) s)"

text \<open>What \<open>stream.Recv()\<close> yields, and the state of the RPC: running, or returned with its error.\<close>

datatype recv = Recv RateLimitQuotaUsageReports | RecvEOF | RecvErr go_error

datatype rpc_status = Running | Returned "rpc_error option"

fun stream_loop ::
  "'st BucketStore \<Rightarrow> nat \<Rightarrow> recv list \<Rightarrow> 'st RLQSServer \<Rightarrow> 'st RLQSServer \<times> rpc_status" where
  "stream_loop ops sid [] s = (s, Running)"
| "stream_loop ops sid (RecvEOF # evs) s = (s, Returned None)"
| "stream_loop ops sid (RecvErr e # evs) s = (s, Returned (Some (TransportError e)))"
| "stream_loop ops sid (Recv req # evs) s =
     (case handleMessage ops sid req s of
        (s1, Some e) \<Rightarrow> (s1, Returned (Some e))
      | (s1, None) \<Rightarrow> stream_loop ops sid evs s1)"

definition StreamRateLimitQuotas ::
  "'st BucketStore \<Rightarrow> grpc_stream \<Rightarrow> recv list \<Rightarrow> 'st RLQSServer \<Rightarrow> 'st RLQSServer \<times> rpc_status" where
  "StreamRateLimitQuotas ops g evs s =
     (case open_stream g s of (sid, s1) \<Rightarrow>
        (case stream_loop ops sid evs s1 of
           (s2, Running) \<Rightarrow> (s2, Running)
         | (s2, Returned e) \<Rightarrow> (close_stream ops sid s2, Returned e)))"

section \<open>Engine swaps and proactive pushes\<close>

text \<open>
  \<open>s.engine\<close> is an \<open>atomic.Value\<close>: its \<open>Store\<close> panics when the concrete type of the new value
  differs from the one already stored.
\<close>

definition inconsistent_type :: go_panic where
  "inconsistent_type = ''sync/atomic: store of inconsistently typed value into Value''"

definition engine_Store :: "Engine \<Rightarrow> 'st RLQSServer \<Rightarrow> go_panic + 'st RLQSServer" where
  "engine_Store e s =
     (if ConcreteType e \<noteq> ConcreteType (engine s) then Inl inconsistent_type
      else Inr (s\<lparr>engine := e\<rparr>))"

definition SwapEngine :: "Engine \<Rightarrow> 'st RLQSServer \<Rightarrow> go_panic + 'st RLQSServer" where
  "SwapEngine e s =
     (case engine_Store e s of
        Inl p \<Rightarrow> Inl p
      | Inr s1 \<Rightarrow> Inr (s1\<lparr>pushes := pushes s1 @ [e]\<rparr>))"

definition push_reports :: "streamState \<Rightarrow> UsageReport list" where
  "push_reports ss = map (\<lambda>(k, bid). \<lparr>ReportBucketId = Some bid, NumRequestsAllowed = 0,
     NumRequestsDenied = 0, TimeElapsed = 0\<rparr>) (subscriptions ss)"

definition push_stream :: "Engine \<Rightarrow> nat \<Rightarrow> 'st RLQSServer \<Rightarrow> 'st RLQSServer" where
  "push_stream e sid s =
     (let ss = heap s sid in
      if \<not> domainBound ss \<or> length (subscriptions ss) = 0 then s
      else (case ProcessUsage e (engine_ctx (StreamCtx (stream ss)) s) (domain ss) (push_reports ss) of
              Inl err \<Rightarrow> s
            | Inr actions \<Rightarrow>
                if length actions = 0 then s
                else fst (send_response sid \<lparr>GetBucketAction = actions\<rparr>
                            (add_assignments (metricDomain ss) (length actions) s))))"

definition pushAssignments :: "Engine \<Rightarrow> 'st RLQSServer \<Rightarrow> 'st RLQSServer" where
  "pushAssignments e s = fold (push_stream e) (streams s) s"

text \<open>The scheduler runs one of the pending push goroutines.\<close>

definition run_push :: "nat \<Rightarrow> 'st RLQSServer \<Rightarrow> 'st RLQSServer" where
  "run_push i s =
     pushAssignments (pushes s ! i) (s\<lparr>pushes := take i (pushes s) @ drop (Suc i) (pushes s)\<rparr>)"

record StreamInfo =
  StreamDomain :: string
  SubscriptionCount :: nat

definition StreamStats :: "'st RLQSServer \<Rightarrow> StreamInfo list" where
  "StreamStats s =
     map (\<lambda>sid. \<lparr>StreamDomain = domain (heap s sid),
                 SubscriptionCount = length (subscriptions (heap s sid))\<rparr>) (streams s)"

section \<open>A small run\<close>

text \<open>One client on an in-memory server with the default configuration; used in examples.\<close>

definition example_bucket :: BucketId where
  "example_bucket = \<lparr>Bucket = [(''name'', ''a'')]\<rparr>"

definition example_usage :: BucketQuotaUsage where
  "example_usage = \<lparr>GetBucketId = Some example_bucket, GetNumRequestsAllowed = 3,
     GetNumRequestsDenied = 1, GetTimeElapsed = 0\<rparr>"

definition example_message :: RateLimitQuotaUsageReports where
  "example_message = \<lparr>GetDomain = ''d'', GetBucketQuotaUsages = [example_usage]\<rparr>"

definition example_grpc :: grpc_stream where
  "example_grpc = \<lparr>StreamCtx = StreamContext 0, Send = (\<lambda>_ _. None)\<rparr>"

definition example_engine :: Engine where
  "example_engine = DefaultEngine_value
     \<lparr>DefaultStrategy = Some (StrategyBlanketRule ALLOW_ALL), DefaultAssignmentTTL = None\<rparr>"

definition example_init :: "MemoryStorage RLQSServer" where
  "example_init = NewRLQS literal_Compile NewMemoryStorage example_engine (ServerOf default_config) None"

definition example_open :: "MemoryStorage RLQSServer" where
  "example_open = snd (open_stream example_grpc example_init)"

definition example_run :: "MemoryStorage RLQSServer" where
  "example_run = fst (handleMessage MemoryStorage_store 0 example_message example_open)"

lemma example_key: "BucketKeyFromProto (Some example_bucket) = ''name'' @ [CHR 0x00] @ ''a''"
  by (simp add: BucketKeyFromProto_def example_bucket_def get_or_def)

lemma example_handled: "handleMessage MemoryStorage_store 0 example_message example_open = (example_run, None)"
proof -
  have "snd (handleMessage MemoryStorage_store 0 example_message example_open) = None" by code_simp
  then show ?thesis by (simp add: example_run_def prod_eq_iff)
qed

lemma example_streams: "streams example_open = [0]" "streams example_run = [0]"
  by code_simp+

end
