(* ===== verification/Server_Invariant.thy ===== *)
theory Server_Invariant
  imports Server
begin

text \<open>
  The invariant of the server state and its preservation by every operation of the theory
  \<open>Server\<close>: reference counts equal the number of subscribed streams, gauges equal the state
  they report, every subscription is bounded, validated and stored under its canonical key.
\<close>

section \<open>The invariant\<close>

text \<open>What one stream contributes to the count of a scoped key and to the gauge of a label.\<close>

definition refs_of :: "streamState \<Rightarrow> BucketKey \<Rightarrow> int" where
  "refs_of ss k = int (key_count (\<lambda>key. DomainScopedKey (domain ss) key = k) (subscriptions ss))"

definition gauge_of :: "streamState \<Rightarrow> string \<Rightarrow> int" where
  "gauge_of ss l = (if metricDomain ss = l then int (length (subscriptions ss)) else 0)"

definition stream_ok :: "'st RLQSServer \<Rightarrow> streamState \<Rightarrow> bool" where
  "stream_ok s ss \<longleftrightarrow>
     wf_map (subscriptions ss)
     \<and> (domainBound ss \<longrightarrow> domain ss \<noteq> [])
     \<and> (\<not> domainBound ss \<longrightarrow> subscriptions ss = [])
     \<and> (maxBucketsPerStream s > 0 \<longrightarrow> int (length (subscriptions ss)) \<le> maxBucketsPerStream s)
     \<and> (\<forall>(key, bid) \<in> set (subscriptions ss). key = BucketKeyFromProto (Some bid)
          \<and> Bucket bid \<noteq> [] \<and> validate_bucket s (Bucket bid) = None)"

definition refs_ok :: "(BucketKey, int) gomap \<Rightarrow> bool" where
  "refs_ok m \<longleftrightarrow> wf_map m \<and> (\<forall>(k, n) \<in> set m. n > 0)"

definition server_inv :: "'st RLQSServer \<Rightarrow> bool" where
  "server_inv s \<longleftrightarrow>
     distinct (streams s)
     \<and> (\<forall>sid \<in> set (streams s). sid < nextPtr s)
     \<and> (\<forall>sid \<in> set (streams s). stream_ok s (heap s sid))
     \<and> refs_ok (bucketRefs s)
     \<and> (\<forall>k. get_or 0 (bucketRefs s) k = (\<Sum>sid\<leftarrow>streams s. refs_of (heap s sid) k))
     \<and> ActiveStreams (metrics s) = int (length (streams s))
     \<and> (\<forall>l. ActiveBuckets (metrics s) l = (\<Sum>sid\<leftarrow>streams s. gauge_of (heap s sid) l))"

section \<open>Reference counts\<close>

lemma refs_ok_key_iff: "refs_ok m \<Longrightarrow> k \<in> set (keys m) \<longleftrightarrow> get_or 0 m k > 0"
proof (cases "map_of m k")
  case None
  then have "k \<notin> set (keys m)" by (simp only: map_of_None_keys) simp
  with None show ?thesis by (simp add: get_or_def)
next
  case (Some n)
  assume "refs_ok m"
  moreover have "(k, n) \<in> set m" using Some by (rule map_of_SomeD)
  ultimately show ?thesis using Some by (force simp: get_or_def refs_ok_def)
qed

lemma set_update_pairs: "wf_map m \<Longrightarrow> (a, b) \<in> set (AList.update k v m) \<longleftrightarrow>
    (if a = k then b = v else (a, b) \<in> set m)"
  using map_of_wf_Some [of "AList.update k v m" a b] map_of_wf_Some [of m a b]
  by (auto simp: gomap_simps)

lemma refs_ok_update: "refs_ok m \<Longrightarrow> n > 0 \<Longrightarrow> refs_ok (AList.update k n m)"
  by (auto simp: refs_ok_def set_update_pairs split: if_splits)

lemma refs_ok_delete: "refs_ok m \<Longrightarrow> refs_ok (AList.delete k m)"
  using set_delete_subset [of k m] by (auto simp: refs_ok_def)

lemma refs_ok_nonneg: "refs_ok m \<Longrightarrow> get_or 0 m k \<ge> 0"
  using refs_ok_key_iff [of m k]
  by (cases "map_of m k") (auto simp: get_or_def refs_ok_def dest: map_of_SomeD)

lemma refs_of_delete:
  assumes "wf_map (subscriptions ss)" and "key \<in> set (keys (subscriptions ss))"
  shows "refs_of (ss\<lparr>subscriptions := AList.delete key (subscriptions ss)\<rparr>) k =
    refs_of ss k - (if k = DomainScopedKey (domain ss) key then 1 else 0)"
  using key_count_delete [OF assms, of "\<lambda>key. DomainScopedKey (domain ss) key = k"]
  by (auto simp: refs_of_def)

lemma refs_of_add:
  assumes "key \<notin> set (keys (subscriptions ss))"
  shows "refs_of (ss\<lparr>subscriptions := AList.update key bid (subscriptions ss)\<rparr>) k =
    refs_of ss k + (if k = DomainScopedKey (domain ss) key then 1 else 0)"
  using key_count_update_new [OF assms, of "\<lambda>key. DomainScopedKey (domain ss) key = k" bid]
  by (auto simp: refs_of_def)

lemma refs_of_nonneg: "refs_of ss k \<ge> 0"
  by (simp add: refs_of_def)

lemma refs_of_subscribed:
  "key \<in> set (keys (subscriptions ss)) \<Longrightarrow> refs_of ss (DomainScopedKey (domain ss) key) \<ge> 1"
  by (force simp: refs_of_def key_count_def Suc_le_eq filter_empty_conv)

lemma length_delete_in: "wf_map m \<Longrightarrow> k \<in> set (keys m) \<Longrightarrow> int (length (AList.delete k m)) = int (length m) - 1"
  using key_count_delete [of m k "\<lambda>_. True"] by simp

text \<open>Releasing one reference.\<close>

lemma release_ref_frame [simp]:
  "heap (release_ref ops ctx d key s) = heap s"
  "streams (release_ref ops ctx d key s) = streams s"
  "nextPtr (release_ref ops ctx d key s) = nextPtr s"
  "metrics (release_ref ops ctx d key s) = metrics s"
  "engine (release_ref ops ctx d key s) = engine s"
  "pushes (release_ref ops ctx d key s) = pushes s"
  "domainClassifier (release_ref ops ctx d key s) = domainClassifier s"
  "maxBucketsPerStream (release_ref ops ctx d key s) = maxBucketsPerStream s"
  "maxReportsPerMessage (release_ref ops ctx d key s) = maxReportsPerMessage s"
  "maxBucketEntries (release_ref ops ctx d key s) = maxBucketEntries s"
  "maxBucketKeyLen (release_ref ops ctx d key s) = maxBucketKeyLen s"
  "maxBucketValueLen (release_ref ops ctx d key s) = maxBucketValueLen s"
  "engineTimeout (release_ref ops ctx d key s) = engineTimeout s"
  by (simp_all add: release_ref_def Let_def split_beta)

lemma release_ref_refs:
  assumes "refs_ok (bucketRefs s)" and "get_or 0 (bucketRefs s) (DomainScopedKey d key) \<ge> 1"
  shows "refs_ok (bucketRefs (release_ref ops ctx d key s))"
    and "get_or 0 (bucketRefs (release_ref ops ctx d key s)) k =
      get_or 0 (bucketRefs s) k - (if k = DomainScopedKey d key then 1 else 0)"
proof -
  let ?k = "DomainScopedKey d key" and ?m = "bucketRefs s"
  have eq: "bucketRefs (release_ref ops ctx d key s) =
    (if get_or 0 ?m ?k - 1 \<le> 0 then AList.delete ?k (AList.update ?k (get_or 0 ?m ?k - 1) ?m)
     else AList.update ?k (get_or 0 ?m ?k - 1) ?m)"
    by (simp add: release_ref_def Let_def split_beta get_or_update)
  have del: "AList.delete ?k (AList.update ?k n ?m) = AList.delete ?k ?m" for n
    by (rule delete_update_same)
  show "refs_ok (bucketRefs (release_ref ops ctx d key s))"
    unfolding eq del using assms by (simp add: refs_ok_delete refs_ok_update)
  show "get_or 0 (bucketRefs (release_ref ops ctx d key s)) k = get_or 0 ?m k - (if k = ?k then 1 else 0)"
    unfolding eq using assms(2) by (auto simp: gomap_simps)
qed

section \<open>Changing one stream\<close>

lemma validate_bucket_cong:
  "maxBucketEntries s' = maxBucketEntries s \<Longrightarrow> maxBucketKeyLen s' = maxBucketKeyLen s \<Longrightarrow>
    maxBucketValueLen s' = maxBucketValueLen s \<Longrightarrow> validate_bucket s' b = validate_bucket s b"
  by (simp add: validate_bucket_def)

definition same_limits :: "'st RLQSServer \<Rightarrow> 'st RLQSServer \<Rightarrow> bool" where
  "same_limits s s' \<longleftrightarrow>
     maxBucketsPerStream s' = maxBucketsPerStream s \<and> maxReportsPerMessage s' = maxReportsPerMessage s
     \<and> maxBucketEntries s' = maxBucketEntries s \<and> maxBucketKeyLen s' = maxBucketKeyLen s
     \<and> maxBucketValueLen s' = maxBucketValueLen s \<and> engineTimeout s' = engineTimeout s"

lemma stream_ok_cong: "same_limits s s' \<Longrightarrow> stream_ok s' ss = stream_ok s ss"
  by (simp add: stream_ok_def same_limits_def validate_bucket_def)

text \<open>
  An operation that replaces the state of one registered stream keeps the invariant when it
  moves the reference counts and the gauge by exactly what the stream's contribution changes.
\<close>

lemma server_inv_change:
  assumes inv: "server_inv s" and sid: "sid \<in> set (streams s)"
    and frame: "streams s' = streams s" "nextPtr s' = nextPtr s" "heap s' = (heap s)(sid := ss')"
      "same_limits s s'" "ActiveStreams (metrics s') = ActiveStreams (metrics s)"
    and ok: "stream_ok s ss'" "refs_ok (bucketRefs s')"
    and refs: "\<And>k. get_or 0 (bucketRefs s') k =
      get_or 0 (bucketRefs s) k + refs_of ss' k - refs_of (heap s sid) k"
    and gauge: "\<And>l. ActiveBuckets (metrics s') l =
      ActiveBuckets (metrics s) l + gauge_of ss' l - gauge_of (heap s sid) l"
  shows "server_inv s'"
proof -
  have sums: "(\<Sum>x\<leftarrow>streams s. h (((heap s)(sid := ss')) x)) =
      (\<Sum>x\<leftarrow>streams s. h (heap s x)) + h ss' - h (heap s sid)" for h :: "streamState \<Rightarrow> int"
    using inv sid sum_list_change [of "streams s" sid "\<lambda>x. h (((heap s)(sid := ss')) x)" "\<lambda>x. h (heap s x)"]
    by (simp add: server_inv_def)
  show ?thesis
    using inv ok frame refs gauge sums [of "\<lambda>ss. refs_of ss _"] sums [of "\<lambda>ss. gauge_of ss _"]
    by (simp add: server_inv_def stream_ok_cong)
qed

section \<open>Preservation by the parts of the handler\<close>

text \<open>A registered stream in a state that satisfies the invariant.\<close>

definition live :: "nat \<Rightarrow> 'st RLQSServer \<Rightarrow> bool" where
  "live sid s \<longleftrightarrow> server_inv s \<and> sid \<in> set (streams s)"

lemma live_stream_ok: "live sid s \<Longrightarrow> stream_ok s (heap s sid)"
  by (simp add: live_def server_inv_def)

lemma live_refs_ok: "live sid s \<Longrightarrow> refs_ok (bucketRefs s)"
  by (simp add: live_def server_inv_def)

lemma same_limits_refl [simp]: "same_limits s s"
  by (simp add: same_limits_def)

lemma live_change:
  assumes "live sid s"
    and "streams s' = streams s" "nextPtr s' = nextPtr s" "heap s' = (heap s)(sid := ss')"
      "same_limits s s'" "ActiveStreams (metrics s') = ActiveStreams (metrics s)"
    and "stream_ok s ss'" "refs_ok (bucketRefs s')"
    and "\<And>k. get_or 0 (bucketRefs s') k = get_or 0 (bucketRefs s) k + refs_of ss' k - refs_of (heap s sid) k"
    and "\<And>l. ActiveBuckets (metrics s') l = ActiveBuckets (metrics s) l + gauge_of ss' l - gauge_of (heap s sid) l"
  shows "live sid s'"
  using assms server_inv_change [of s sid s' ss'] by (simp add: live_def)

text \<open>Fields the invariant does not mention, and metrics other than the two gauges.\<close>

lemma server_inv_irrelevant [simp]:
  "server_inv (s\<lparr>store := st\<rparr>) = server_inv s"
  "server_inv (s\<lparr>engine := e\<rparr>) = server_inv s"
  "server_inv (s\<lparr>pushes := ps\<rparr>) = server_inv s"
  "server_inv (s\<lparr>domainClassifier := c\<rparr>) = server_inv s"
  by (simp_all add: server_inv_def stream_ok_def validate_bucket_def)

lemma live_irrelevant [simp]:
  "live sid (s\<lparr>store := st\<rparr>) = live sid s"
  "live sid (s\<lparr>engine := e\<rparr>) = live sid s"
  "live sid (s\<lparr>pushes := ps\<rparr>) = live sid s"
  "live sid (s\<lparr>domainClassifier := c\<rparr>) = live sid s"
  by (simp_all add: live_def)

lemma server_inv_metrics:
  assumes "ActiveStreams (f (metrics s)) = ActiveStreams (metrics s)"
    and "ActiveBuckets (f (metrics s)) = ActiveBuckets (metrics s)"
  shows "server_inv (upd_metrics f s) = server_inv s"
  using assms by (simp add: upd_metrics_def server_inv_def stream_ok_def validate_bucket_def)

lemma live_metrics:
  assumes "ActiveStreams (f (metrics s)) = ActiveStreams (metrics s)"
    and "ActiveBuckets (f (metrics s)) = ActiveBuckets (metrics s)"
  shows "live sid (upd_metrics f s) = live sid s"
  using server_inv_metrics [of f s, OF assms] by (simp add: live_def upd_metrics_def)

lemma live_counters [simp]:
  "live sid (add_assignments l n s) = live sid s"
  "live sid (count_reports l n s) = live sid s"
  "live sid (upd_metrics (\<lambda>m. m\<lparr>EngineDuration := x m\<rparr>) s) = live sid s"
  by (simp_all add: add_assignments_def count_reports_def live_metrics)

lemma live_bind_domain:
  assumes "live sid s"
  shows "live sid (fst (bind_domain sid req s))"
proof (cases "domainBound (heap s sid) \<or> GetDomain req = []")
  case True
  then show ?thesis using assms by (auto simp: bind_domain_def Let_def)
next
  case False
  obtain label c where cl: "Classify (GetDomain req) (domainClassifier s) = (label, c)"
    by (cases "Classify (GetDomain req) (domainClassifier s)")
  let ?ss = "(heap s sid)\<lparr>domain := GetDomain req, metricDomain := label, domainBound := True\<rparr>"
  let ?s = "upd_stream sid (\<lambda>_. ?ss) (s\<lparr>domainClassifier := c\<rparr>)"
  have ok: "stream_ok s (heap s sid)" and none: "subscriptions (heap s sid) = []"
    using live_stream_ok [OF assms] False by (simp_all add: stream_ok_def)
  have "live sid ?s"
    using assms False ok none live_refs_ok [OF assms]
    by (intro live_change [where s' = ?s and ss' = ?ss, OF assms])
      (simp_all add: upd_stream_def stream_ok_def refs_of_def gauge_of_def same_limits_def)
  moreover have "fst (bind_domain sid req s) = ?s"
    using False cl by (auto simp: bind_domain_def classifyDomain_def Let_def upd_stream_def)
  ultimately show ?thesis by simp
qed

lemma live_subscribe:
  assumes "live sid s" and "domainBound (heap s sid)"
    and "Bucket bid \<noteq> []" and "validate_bucket s (Bucket bid) = None"
  shows "live sid (fst (subscribe sid (BucketKeyFromProto (Some bid)) bid s))"
proof (cases "BucketKeyFromProto (Some bid) \<in> set (keys (subscriptions (heap s sid)))
    \<or> (maxBucketsPerStream s > 0 \<and> int (length (subscriptions (heap s sid))) \<ge> maxBucketsPerStream s)")
  case True
  then show ?thesis using assms(1) by (auto simp: subscribe_def Let_def)
next
  case False
  let ?key = "BucketKeyFromProto (Some bid)" and ?old = "heap s sid"
  let ?ss = "?old\<lparr>subscriptions := AList.update ?key bid (subscriptions ?old)\<rparr>"
  let ?s = "fst (subscribe sid ?key bid s)"
  have new: "?key \<notin> set (keys (subscriptions ?old))" using False by blast
  have ok: "stream_ok s ?ss"
    using live_stream_ok [OF assms(1)] False new assms(2-4)
    by (auto simp: stream_ok_def keys_update_new)
  have len: "int (length (subscriptions ?ss)) = int (length (subscriptions ?old)) + 1"
    using new by (simp add: keys_update_new)
  show ?thesis
    using False ok len refs_of_add [OF new, of bid] refs_ok_nonneg [OF live_refs_ok [OF assms(1)]]
      live_refs_ok [OF assms(1)]
    by (intro live_change [where s' = ?s and ss' = ?ss, OF assms(1)])
      (auto simp: subscribe_def Let_def upd_stream_def upd_metrics_def same_limits_def gauge_of_def
        gomap_simps add_nonneg_pos intro!: refs_ok_update)
qed

lemma record_report_eq: "\<exists>st. record_report ops ctx sid r s = s\<lparr>store := st\<rparr>"
  by (simp add: record_report_def split_beta) blast

lemma live_record_report [simp]: "live sid (record_report ops ctx sid' r s) = live sid s"
  using record_report_eq [of ops ctx sid' r s] by auto

lemma live_send_response: "live sid s \<Longrightarrow> live sid (fst (send_response sid resp s))"
proof -
  assume l: "live sid s"
  let ?ss = "(heap s sid)\<lparr>delivered := delivered (heap s sid) @ [resp]\<rparr>"
  have "live sid (upd_stream sid (\<lambda>_. ?ss) s)"
    using l live_stream_ok [OF l] live_refs_ok [OF l]
    by (intro live_change [where s' = "upd_stream sid (\<lambda>_. ?ss) s" and ss' = ?ss, OF l])
      (simp_all add: upd_stream_def stream_ok_def refs_of_def gauge_of_def same_limits_def)
  with l show ?thesis by (simp add: send_response_def upd_stream_def split: option.split)
qed

lemma live_abandon_action:
  assumes "live sid s"
  shows "live sid (abandon_action ops ctx sid a s)"
proof (cases "is_abandon a \<and> BucketKeyFromProto (ActionBucketId a) \<in> set (keys (subscriptions (heap s sid)))")
  case False
  then show ?thesis using assms by (auto simp: abandon_action_def Let_def)
next
  case True
  let ?key = "BucketKeyFromProto (ActionBucketId a)" and ?old = "heap s sid"
  let ?ss = "?old\<lparr>subscriptions := AList.delete ?key (subscriptions ?old)\<rparr>"
  let ?s1 = "upd_stream sid (\<lambda>ss. ss\<lparr>subscriptions := AList.delete ?key (subscriptions ss)\<rparr>) s"
  let ?s = "abandon_action ops ctx sid a s"
  have s_eq: "?s = dec_active_buckets (metricDomain ?old) (release_ref ops ctx (domain ?old) ?key ?s1)"
    using True by (simp add: abandon_action_def Let_def)
  have wf: "wf_map (subscriptions ?old)" and mem: "?key \<in> set (keys (subscriptions ?old))"
    using live_stream_ok [OF assms] True by (simp_all add: stream_ok_def)
  have "refs_of ?old (DomainScopedKey (domain ?old) ?key) \<le>
      (\<Sum>sid\<leftarrow>streams s. refs_of (heap s sid) (DomainScopedKey (domain ?old) ?key))"
    using assms refs_of_nonneg by (intro sum_list_member) (simp_all add: live_def)
  then have ge: "get_or 0 (bucketRefs ?s1) (DomainScopedKey (domain ?old) ?key) \<ge> 1"
    using assms refs_of_subscribed [OF mem] by (auto simp: live_def server_inv_def upd_stream_def)
  have ok1: "refs_ok (bucketRefs ?s1)"
    using live_refs_ok [OF assms] by (simp add: upd_stream_def)
  note rel = release_ref_refs [OF ok1 ge, of ops ctx]
  have ok: "stream_ok s ?ss"
    using live_stream_ok [OF assms] length_delete [of ?key "subscriptions ?old"]
      set_delete_subset [of ?key "subscriptions ?old"]
    by (auto simp: stream_ok_def)
  show ?thesis
    using ok rel refs_of_delete [OF wf mem] length_delete_in [OF wf mem] unfolding s_eq
    by (intro live_change [where s' = "dec_active_buckets (metricDomain ?old) (release_ref ops ctx (domain ?old) ?key ?s1)"
          and ss' = ?ss, OF assms])
      (auto simp: dec_active_buckets_def upd_stream_def upd_metrics_def same_limits_def gauge_of_def)
qed

section \<open>What a handler leaves alone\<close>

text \<open>
  A handler of one stream registers and removes no stream, changes no limit and no engine, does
  not touch other streams, and never changes the domain of a bound stream.
\<close>

definition keeps :: "nat \<Rightarrow> 'st RLQSServer \<Rightarrow> 'st RLQSServer \<Rightarrow> bool" where
  "keeps sid s s' \<longleftrightarrow>
     streams s' = streams s \<and> nextPtr s' = nextPtr s \<and> same_limits s s' \<and> engine s' = engine s
     \<and> pushes s' = pushes s \<and> (\<forall>x. x \<noteq> sid \<longrightarrow> heap s' x = heap s x)
     \<and> stream (heap s' sid) = stream (heap s sid)
     \<and> (domainBound (heap s sid) \<longrightarrow> domainBound (heap s' sid)
          \<and> domain (heap s' sid) = domain (heap s sid)
          \<and> metricDomain (heap s' sid) = metricDomain (heap s sid))"

lemma keeps_refl [simp]: "keeps sid s s"
  by (simp add: keeps_def)

lemma keeps_trans: "keeps sid s s' \<Longrightarrow> keeps sid s' s'' \<Longrightarrow> keeps sid s s''"
  by (auto simp: keeps_def same_limits_def)

lemma keeps_bound: "keeps sid s s' \<Longrightarrow> domainBound (heap s sid) \<Longrightarrow> domainBound (heap s' sid)"
  by (simp add: keeps_def)

lemma keeps_validate: "keeps sid s s' \<Longrightarrow> validate_bucket s' b = validate_bucket s b"
  by (simp add: keeps_def same_limits_def validate_bucket_def)

lemma keeps_metrics [simp]:
  "keeps sid s (upd_metrics f s)" "keeps sid s (add_assignments l n s)" "keeps sid s (count_reports l n s)"
  by (simp_all add: keeps_def same_limits_def upd_metrics_def add_assignments_def count_reports_def)

lemma keeps_bind_domain: "keeps sid s (fst (bind_domain sid req s))"
  by (auto simp: bind_domain_def classifyDomain_def keeps_def same_limits_def upd_stream_def Let_def split_beta)

lemma keeps_subscribe: "keeps sid s (fst (subscribe sid key bid s))"
  by (auto simp: subscribe_def keeps_def same_limits_def upd_stream_def upd_metrics_def Let_def)

lemma keeps_record_report: "keeps sid s (record_report ops ctx sid r s)"
  by (simp add: record_report_def keeps_def same_limits_def split_beta)

lemma keeps_send_response: "keeps sid s (fst (send_response sid resp s))"
  by (simp add: send_response_def keeps_def same_limits_def upd_stream_def split: option.split)

lemma keeps_abandon_action: "keeps sid s (abandon_action ops ctx sid a s)"
  by (simp add: abandon_action_def dec_active_buckets_def keeps_def same_limits_def upd_stream_def
      upd_metrics_def Let_def)

lemma keeps_abandon_actions: "keeps sid s (abandon_actions ops ctx sid as s)"
  by (induction ops ctx sid as s rule: abandon_actions.induct)
    (auto intro: keeps_trans keeps_abandon_action)

lemma keeps_track_usage: "keeps sid s (fst (track_usage ops ctx sid u s))"
proof (cases "GetBucketId u")
  case (Some bid)
  obtain s1 e where sub: "subscribe sid (BucketKeyFromProto (Some bid)) bid s = (s1, e)"
    by (cases "subscribe sid (BucketKeyFromProto (Some bid)) bid s")
  then have "keeps sid s s1" using keeps_subscribe [of sid s "BucketKeyFromProto (Some bid)" bid] by simp
  then show ?thesis
    using Some sub keeps_trans [OF _ keeps_record_report]
    by (auto simp: track_usage_def split: option.split)
qed (simp add: track_usage_def)

lemma keeps_track_usages: "keeps sid s (fst (track_usages ops ctx sid us s))"
proof (induction us arbitrary: s)
  case (Cons u us)
  show ?case
    using keeps_track_usage [of sid s ops ctx u] Cons.IH keeps_trans
    by (fastforce split: prod.split sum.split)
qed simp

lemma keeps_answer_reports: "keeps sid s (fst (answer_reports ops ctx sid reports s))"
  by (auto simp: answer_reports_def Let_def split: sum.split
      intro!: keeps_trans [OF _ keeps_send_response] keeps_trans [OF _ keeps_abandon_actions]
        keeps_trans [OF _ keeps_metrics(2)] keeps_trans [OF _ keeps_metrics(1)])

lemma keeps_handleMessage: "keeps sid s (fst (handleMessage ops sid req s))"
proof -
  obtain s1 e1 where b: "bind_domain sid req s = (s1, e1)" by (cases "bind_domain sid req s")
  let ?ctx = "StreamCtx (stream (heap s sid))"
  obtain s2 r where t: "track_usages ops ?ctx sid (GetBucketQuotaUsages req) s1 = (s2, r)"
    by (cases "track_usages ops ?ctx sid (GetBucketQuotaUsages req) s1")
  have k1: "keeps sid s s1" using keeps_bind_domain [of sid s req] b by simp
  have k2: "keeps sid s s2"
    using keeps_trans [OF k1 keeps_track_usages [of sid s1 ops ?ctx "GetBucketQuotaUsages req"]] t by simp
  show ?thesis
    using b t k1 k2 keeps_trans [OF k2 keeps_answer_reports]
    by (auto simp: handleMessage_def Let_def split: option.split sum.split)
qed

section \<open>The handler keeps the invariant\<close>

lemma live_track_usage:
  assumes "live sid s" and "domainBound (heap s sid)"
  shows "live sid (fst (track_usage ops ctx sid u s))"
proof (cases "GetBucketId u")
  case (Some bid)
  obtain s1 e where sub: "subscribe sid (BucketKeyFromProto (Some bid)) bid s = (s1, e)"
    by (cases "subscribe sid (BucketKeyFromProto (Some bid)) bid s")
  have "live sid s1" if "Bucket bid \<noteq> []" "validate_bucket s (Bucket bid) = None"
    using live_subscribe [OF assms that] sub by simp
  then show ?thesis
    using Some sub assms(1) by (auto simp: track_usage_def split: option.split)
qed (use assms in \<open>simp add: track_usage_def\<close>)

lemma live_track_usages:
  "live sid s \<Longrightarrow> domainBound (heap s sid) \<Longrightarrow> live sid (fst (track_usages ops ctx sid us s))"
proof (induction us arbitrary: s)
  case (Cons u us)
  obtain s1 r where u: "track_usage ops ctx sid u s = (s1, r)" by (cases "track_usage ops ctx sid u s")
  have "live sid s1" and "domainBound (heap s1 sid)"
    using live_track_usage [OF Cons.prems, of ops ctx u] keeps_track_usage [of sid s ops ctx u]
      Cons.prems(2) u by (auto dest: keeps_bound)
  from Cons.IH [OF this] show ?case
    using \<open>live sid s1\<close> u by (auto split: prod.split sum.split)
qed simp

lemma live_abandon_actions: "live sid s \<Longrightarrow> live sid (abandon_actions ops ctx sid as s)"
  by (induction ops ctx sid as s rule: abandon_actions.induct) (simp_all add: live_abandon_action)

lemma live_answer_reports: "live sid s \<Longrightarrow> live sid (fst (answer_reports ops ctx sid reports s))"
  by (auto simp: answer_reports_def Let_def split: sum.split intro!: live_send_response live_abandon_actions)

lemma bind_domain_bound: "bind_domain sid req s = (s', None) \<Longrightarrow> domainBound (heap s' sid)"
proof -
  have "snd (bind_domain sid req s) = None \<Longrightarrow> domainBound (heap (fst (bind_domain sid req s)) sid)"
    by (auto simp: bind_domain_def classifyDomain_def upd_stream_def Let_def split_beta split: if_splits)
  then show "bind_domain sid req s = (s', None) \<Longrightarrow> domainBound (heap s' sid)" by simp
qed

lemma live_handleMessage:
  assumes "live sid s"
  shows "live sid (fst (handleMessage ops sid req s))"
proof -
  obtain s1 e1 where b: "bind_domain sid req s = (s1, e1)" by (cases "bind_domain sid req s")
  let ?ctx = "StreamCtx (stream (heap s sid))"
  obtain s2 r where t: "track_usages ops ?ctx sid (GetBucketQuotaUsages req) s1 = (s2, r)"
    by (cases "track_usages ops ?ctx sid (GetBucketQuotaUsages req) s1")
  have l1: "live sid s1" using live_bind_domain [OF assms, of req] b by simp
  have l2: "live sid s2" if "e1 = None"
    using live_track_usages [OF l1 bind_domain_bound, of req s ops ?ctx "GetBucketQuotaUsages req"] b t that by simp
  show ?thesis
    using b t l1 l2 live_answer_reports [of sid s2]
    by (auto simp: handleMessage_def Let_def split: option.split sum.split)
qed

section \<open>Opening and closing a stream\<close>

lemma stream_ok_new: "stream_ok s (new_stream g)"
  by (auto simp: stream_ok_def new_stream_def)

lemma new_stream_empty: "refs_of (new_stream g) k = 0" "gauge_of (new_stream g) l = 0"
  by (simp_all add: refs_of_def gauge_of_def new_stream_def)

lemma live_open_stream:
  assumes "server_inv s"
  shows "live (fst (open_stream g s)) (snd (open_stream g s))"
proof -
  let ?sid = "nextPtr s" and ?s = "snd (open_stream g s)"
  have fresh: "?sid \<notin> set (streams s)" using assms by (auto simp: server_inv_def)
  have sums: "(\<Sum>x\<leftarrow>streams s. h (if x = ?sid then new_stream g else heap s x)) = (\<Sum>x\<leftarrow>streams s. h (heap s x))"
    for h :: "streamState \<Rightarrow> int"
    using fresh by (intro sum_list_cong_set) auto
  have ok: "stream_ok ?s ss = stream_ok s ss" for ss
    by (rule stream_ok_cong) (simp add: same_limits_def open_stream_def upd_metrics_def Let_def)
  have "\<forall>sid \<in> set (streams s). stream_ok s (heap s sid)" using assms by (simp add: server_inv_def)
  then have "\<forall>sid \<in> set (streams ?s). stream_ok ?s (heap ?s sid)"
    unfolding ok using fresh by (auto simp: open_stream_def upd_metrics_def Let_def stream_ok_new)
  moreover have "distinct (streams ?s)" "\<forall>sid \<in> set (streams ?s). sid < nextPtr ?s"
    using assms fresh by (auto simp: server_inv_def open_stream_def upd_metrics_def Let_def)
  ultimately have "server_inv ?s"
    using assms unfolding server_inv_def
    by (simp add: open_stream_def upd_metrics_def Let_def new_stream_empty
        sums [of "\<lambda>ss. refs_of ss _"] sums [of "\<lambda>ss. gauge_of ss _"])
  then show ?thesis by (simp add: live_def open_stream_def upd_metrics_def Let_def)
qed

lemma dec_active_buckets_frame [simp]:
  "bucketRefs (dec_active_buckets l s) = bucketRefs s" "heap (dec_active_buckets l s) = heap s"
  "streams (dec_active_buckets l s) = streams s" "nextPtr (dec_active_buckets l s) = nextPtr s"
  "same_limits s' (dec_active_buckets l s) = same_limits s' s"
  "engine (dec_active_buckets l s) = engine s" "pushes (dec_active_buckets l s) = pushes s"
  "store (dec_active_buckets l s) = store s"
  "ActiveStreams (metrics (dec_active_buckets l s)) = ActiveStreams (metrics s)"
  "ActiveBuckets (metrics (dec_active_buckets l s)) l' = ActiveBuckets (metrics s) l' - (if l' = l then 1 else 0)"
  by (simp_all add: dec_active_buckets_def upd_metrics_def same_limits_def add_label_def)

lemma same_limits_release_ref [simp]: "same_limits s' (release_ref ops ctx d key s) = same_limits s' s"
  by (simp add: same_limits_def)

text \<open>The loop of \<open>cleanupStream\<close> gives back exactly the references of the keys it visits.\<close>

lemma cleanup_keys_frame [simp]:
  "heap (cleanup_keys ops d l ks s) = heap s" "streams (cleanup_keys ops d l ks s) = streams s"
  "nextPtr (cleanup_keys ops d l ks s) = nextPtr s" "same_limits s' (cleanup_keys ops d l ks s) = same_limits s' s"
  "engine (cleanup_keys ops d l ks s) = engine s" "pushes (cleanup_keys ops d l ks s) = pushes s"
  "ActiveStreams (metrics (cleanup_keys ops d l ks s)) = ActiveStreams (metrics s)"
  "ActiveBuckets (metrics (cleanup_keys ops d l ks s)) l' =
    ActiveBuckets (metrics s) l' - (if l' = l then int (length ks) else 0)"
  by (induction ks arbitrary: s) simp_all

lemma cleanup_keys_refs:
  assumes "refs_ok (bucketRefs s)" and "\<And>k. R k \<ge> 0"
    and "\<And>k. get_or 0 (bucketRefs s) k = R k + int (length (filter (\<lambda>key. DomainScopedKey d key = k) ks))"
  shows "refs_ok (bucketRefs (cleanup_keys ops d l ks s))"
    and "get_or 0 (bucketRefs (cleanup_keys ops d l ks s)) k = R k"
proof -
  have "refs_ok (bucketRefs (cleanup_keys ops d l ks s)) \<and> get_or 0 (bucketRefs (cleanup_keys ops d l ks s)) k = R k"
    using assms(1,3)
  proof (induction ks arbitrary: s)
    case (Cons key ks)
    have ge: "get_or 0 (bucketRefs (dec_active_buckets l s)) (DomainScopedKey d key) \<ge> 1"
      using Cons.prems(2) [of "DomainScopedKey d key"] assms(2) [of "DomainScopedKey d key"] by simp
    have ok: "refs_ok (bucketRefs (dec_active_buckets l s))" using Cons.prems(1) by simp
    note rel = release_ref_refs [OF ok ge, of ops Background]
    show ?case using Cons.IH [OF rel(1)] Cons.prems(2) by (simp add: rel(2))
  qed simp
  then show "refs_ok (bucketRefs (cleanup_keys ops d l ks s))"
    and "get_or 0 (bucketRefs (cleanup_keys ops d l ks s)) k = R k" by simp_all
qed

lemma server_inv_remove:
  assumes inv: "server_inv s" and sid: "sid \<in> set (streams s)"
    and frame: "streams s' = remove1 sid (streams s)" "nextPtr s' = nextPtr s" "heap s' = heap s"
      "same_limits s s'" "ActiveStreams (metrics s') = ActiveStreams (metrics s) - 1"
    and ok: "refs_ok (bucketRefs s')"
    and refs: "\<And>k. get_or 0 (bucketRefs s') k = get_or 0 (bucketRefs s) k - refs_of (heap s sid) k"
    and gauge: "\<And>l. ActiveBuckets (metrics s') l = ActiveBuckets (metrics s) l - gauge_of (heap s sid) l"
  shows "server_inv s'"
proof -
  have sums: "(\<Sum>x\<leftarrow>remove1 sid (streams s). h x) = (\<Sum>x\<leftarrow>streams s. h x) - h sid" for h :: "nat \<Rightarrow> int"
    using sum_list_remove1 [OF sid, of h] by simp
  have "int (length (remove1 sid (streams s))) = int (length (streams s)) - 1"
    using sums [of "\<lambda>_. 1"] by (simp add: sum_list_triv)
  then show ?thesis
    using inv sid ok frame refs gauge sums
    by (auto simp: server_inv_def stream_ok_cong dest: notin_set_remove1 [THEN contrapos_pp])
qed

lemma server_inv_close_stream:
  assumes "live sid s"
  shows "server_inv (close_stream ops sid s)"
proof -
  let ?base = "upd_metrics (\<lambda>m. m\<lparr>ActiveStreams := ActiveStreams m - 1\<rparr>) s\<lparr>streams := remove1 sid (streams s)\<rparr>"
  let ?ss = "heap s sid" and ?s = "close_stream ops sid s"
  have ok: "stream_ok s ?ss" and rok: "refs_ok (bucketRefs s)"
    using live_stream_ok [OF assms] live_refs_ok [OF assms] by simp_all
  have inv: "server_inv s" "sid \<in> set (streams s)" using assms by (simp_all add: live_def)
  have s_eq: "?s = (if domainBound ?ss
      then cleanup_keys ops (domain ?ss) (metricDomain ?ss) (keys (subscriptions ?ss)) ?base else ?base)"
    by (simp add: close_stream_def cleanupStream_def upd_metrics_def Let_def)
  have idle: "refs_of ?ss k = 0" "gauge_of ?ss l = 0" if "\<not> domainBound ?ss" for k l
    using ok that by (simp_all add: stream_ok_def refs_of_def gauge_of_def)
  let ?R = "\<lambda>k. get_or 0 (bucketRefs s) k - refs_of ?ss k"
  have "refs_of ?ss k \<le> get_or 0 (bucketRefs s) k" for k
    using inv sum_list_member [OF inv(2), of "\<lambda>x. refs_of (heap s x) k"] refs_of_nonneg
    by (simp add: server_inv_def)
  then have R: "?R k \<ge> 0" for k by simp
  have split: "get_or 0 (bucketRefs ?base) k =
      ?R k + int (length (filter (\<lambda>key. DomainScopedKey (domain ?ss) key = k) (keys (subscriptions ?ss))))" for k
    by (simp add: refs_of_def key_count_def upd_metrics_def)
  have rok0: "refs_ok (bucketRefs ?base)" using rok by (simp add: upd_metrics_def)
  note clean = cleanup_keys_refs [OF rok0, of ?R, OF R split]
  show ?thesis
  proof (rule server_inv_remove [OF inv])
    show "refs_ok (bucketRefs ?s)" using clean(1) rok0 by (simp add: s_eq)
    show "get_or 0 (bucketRefs ?s) k = ?R k" for k
      using clean(2) idle(1) by (simp add: s_eq upd_metrics_def)
    show "ActiveBuckets (metrics ?s) l = ActiveBuckets (metrics s) l - gauge_of ?ss l" for l
      using ok by (auto simp: s_eq upd_metrics_def gauge_of_def stream_ok_def)
  qed (simp_all add: s_eq upd_metrics_def, simp_all add: same_limits_def)
qed

lemma live_stream_loop: "live sid s \<Longrightarrow> live sid (fst (stream_loop ops sid evs s))"
proof (induction ops sid evs s rule: stream_loop.induct)
  case (4 ops sid req evs s)
  have "live sid (fst (handleMessage ops sid req s))" using live_handleMessage 4 by blast
  then show ?case using 4 by (auto split: prod.split option.split)
qed simp_all

lemma keeps_stream_loop: "keeps sid s (fst (stream_loop ops sid evs s))"
proof (induction ops sid evs s rule: stream_loop.induct)
  case (4 ops sid req evs s)
  have "keeps sid s (fst (handleMessage ops sid req s))" by (rule keeps_handleMessage)
  then show ?case using 4 by (auto split: prod.split option.split intro: keeps_trans)
qed simp_all

section \<open>Swaps and pushes\<close>

lemma keeps_push_stream: "keeps sid s (push_stream e sid s)"
  by (auto simp: push_stream_def Let_def split: sum.split
      intro!: keeps_trans [OF keeps_metrics(2) keeps_send_response])

lemma live_push_stream: "live sid s \<Longrightarrow> live sid (push_stream e sid s)"
  by (auto simp: push_stream_def Let_def split: sum.split intro!: live_send_response)

lemma server_inv_push_fold:
  "server_inv s \<Longrightarrow> set sids \<subseteq> set (streams s) \<Longrightarrow>
    server_inv (fold (push_stream e) sids s) \<and> streams (fold (push_stream e) sids s) = streams s"
proof (induction sids arbitrary: s)
  case (Cons sid sids)
  have "live sid (push_stream e sid s)"
    using Cons.prems by (intro live_push_stream) (simp add: live_def)
  moreover have "streams (push_stream e sid s) = streams s"
    using keeps_push_stream [of sid s e] by (simp add: keeps_def)
  ultimately show ?case using Cons.IH [of "push_stream e sid s"] Cons.prems by (simp add: live_def)
qed simp

lemma server_inv_run_push: "server_inv s \<Longrightarrow> server_inv (run_push i s)"
  using server_inv_push_fold [of "s\<lparr>pushes := take i (pushes s) @ drop (Suc i) (pushes s)\<rparr>" "streams s"]
  by (simp add: run_push_def pushAssignments_def)

lemma server_inv_SwapEngine: "server_inv s \<Longrightarrow> SwapEngine e s = Inr s' \<Longrightarrow> server_inv s'"
  by (auto simp: SwapEngine_def engine_Store_def split: if_splits)

lemma server_inv_NewRLQS: "server_inv (NewRLQS compile st eng cfg cl)"
  by (auto simp: server_inv_def NewRLQS_def fresh_metrics_def refs_ok_def get_or_def)

end
