(* ===== verification/Server_Reachable.thy ===== *)
theory Server_Reachable
  imports Server_Invariant
begin

text \<open>
  The running server as a step relation \<open>server_step\<close> that interleaves the handlers of all
  streams, disconnects, swaps and pushes, and what holds in every reachable state: the server
  invariant, nothing left behind without streams, and a store that tracks exactly the subscribed
  buckets.
\<close>

section \<open>Reachable states\<close>

text \<open>
  One step of the running server, with the handlers of all streams interleaved: a stream opens,
  a message is handled, a message fails and its stream is torn down, a client disconnects, an
  engine or classifier is swapped, a push goroutine runs.
\<close>

inductive server_step :: "'st BucketStore \<Rightarrow> 'st RLQSServer \<Rightarrow> 'st RLQSServer \<Rightarrow> bool" for ops where
  step_open: "server_step ops s (snd (open_stream g s))"
| step_message: "sid \<in> set (streams s) \<Longrightarrow> handleMessage ops sid req s = (s', None) \<Longrightarrow> server_step ops s s'"
| step_failure: "sid \<in> set (streams s) \<Longrightarrow> handleMessage ops sid req s = (s', Some e) \<Longrightarrow>
    server_step ops s (close_stream ops sid s')"
| step_disconnect: "sid \<in> set (streams s) \<Longrightarrow> server_step ops s (close_stream ops sid s)"
| step_swap: "SwapEngine e s = Inr s' \<Longrightarrow> server_step ops s s'"
| step_push: "i < length (pushes s) \<Longrightarrow> server_step ops s (run_push i s)"
| step_classifier: "server_step ops s (SwapDomainClassifier c s)"

inductive reachable :: "'st BucketStore \<Rightarrow> 'st RLQSServer \<Rightarrow> 'st RLQSServer \<Rightarrow> bool" for ops init where
  reach_init: "reachable ops init init"
| reach_step: "reachable ops init s \<Longrightarrow> server_step ops s s' \<Longrightarrow> reachable ops init s'"

lemma server_inv_step:
  assumes "server_step ops s s'" and "server_inv s"
  shows "server_inv s'"
  using assms
proof cases
  case (step_open g)
  then show ?thesis using live_open_stream [OF assms(2), of g] by (simp add: live_def)
next
  case (step_message sid req)
  then show ?thesis using live_handleMessage [of sid s ops req] assms(2) by (simp add: live_def)
next
  case (step_failure sid req t e)
  then have "live sid t" using live_handleMessage [of sid s ops req] assms(2) by (simp add: live_def)
  then show ?thesis using step_failure server_inv_close_stream by blast
next
  case (step_disconnect sid)
  then show ?thesis using assms(2) server_inv_close_stream [of sid s ops] by (simp add: live_def)
next
  case (step_swap e)
  then show ?thesis using assms(2) server_inv_SwapEngine by blast
next
  case (step_push i)
  then show ?thesis using assms(2) server_inv_run_push by blast
next
  case (step_classifier c)
  then show ?thesis using assms(2) by (simp add: SwapDomainClassifier_def)
qed

lemma server_inv_reachable: "reachable ops init s \<Longrightarrow> server_inv init \<Longrightarrow> server_inv s"
  by (induction rule: reachable.induct) (blast intro: server_inv_step)+

text \<open>Without registered streams nothing is left behind.\<close>

lemma server_inv_quiescent:
  assumes "server_inv s" and "streams s = []"
  shows "bucketRefs s = []" and "ActiveStreams (metrics s) = 0" and "ActiveBuckets (metrics s) l = 0"
proof -
  have "k \<notin> set (keys (bucketRefs s))" for k
    using assms refs_ok_key_iff [of "bucketRefs s" k] by (simp add: server_inv_def)
  then have "keys (bucketRefs s) = []" using list.set_sel(1) by blast
  then show "bucketRefs s = []" by simp
qed (use assms in \<open>simp_all add: server_inv_def\<close>)

section \<open>The store follows the subscriptions\<close>

text \<open>The store holds usage for exactly the scoped keys that some stream references.\<close>

definition store_synced :: "('st \<Rightarrow> BucketKey \<Rightarrow> UsageState option) \<Rightarrow> 'st RLQSServer \<Rightarrow> bool" where
  "store_synced usage s \<longleftrightarrow> (\<forall>k. usage (store s) k \<noteq> None \<longleftrightarrow> get_or 0 (bucketRefs s) k > 0)"

lemma store_synced_cong:
  "store s' = store s \<Longrightarrow> bucketRefs s' = bucketRefs s \<Longrightarrow> store_synced usage s' = store_synced usage s"
  by (simp add: store_synced_def)

lemma send_response_frame [simp]:
  "store (fst (send_response sid resp s)) = store s"
  "bucketRefs (fst (send_response sid resp s)) = bucketRefs s"
  by (simp_all add: send_response_def upd_stream_def split: option.split)

lemma metrics_frame [simp]:
  "store (upd_metrics f s) = store s" "bucketRefs (upd_metrics f s) = bucketRefs s"
  "store (add_assignments l n s) = store s" "bucketRefs (add_assignments l n s) = bucketRefs s"
  "store (count_reports l n s) = store s" "bucketRefs (count_reports l n s) = bucketRefs s"
  by (simp_all add: upd_metrics_def add_assignments_def count_reports_def)

lemma push_stream_frame [simp]:
  "store (push_stream e sid s) = store s" "bucketRefs (push_stream e sid s) = bucketRefs s"
  by (simp_all add: push_stream_def Let_def split: sum.split)

lemma push_fold_frame [simp]:
  "store (fold (push_stream e) sids s) = store s" "bucketRefs (fold (push_stream e) sids s) = bucketRefs s"
  by (induction sids arbitrary: s) simp_all

lemma bind_domain_frame [simp]:
  "store (fst (bind_domain sid req s)) = store s" "bucketRefs (fst (bind_domain sid req s)) = bucketRefs s"
  by (simp_all add: bind_domain_def classifyDomain_def upd_stream_def Let_def split_beta)

lemma live_refs_le: "live sid s \<Longrightarrow> refs_of (heap s sid) k \<le> get_or 0 (bucketRefs s) k"
  using sum_list_member [of sid "streams s" "\<lambda>x. refs_of (heap s x) k"] refs_of_nonneg
  by (simp add: live_def server_inv_def)

lemma live_subscribed_refs:
  assumes "live sid s" and "key \<in> set (keys (subscriptions (heap s sid)))"
  shows "get_or 0 (bucketRefs s) (DomainScopedKey (domain (heap s sid)) key) \<ge> 1"
  using live_refs_le [OF assms(1)] refs_of_subscribed [OF assms(2)] order_trans by blast

lemma subscribe_refs:
  assumes "live sid s" and "subscribe sid key bid s = (s', None)"
  shows "get_or 0 (bucketRefs s') k > 0 \<longleftrightarrow>
    k = DomainScopedKey (domain (heap s sid)) key \<or> get_or 0 (bucketRefs s) k > 0"
    and "store s' = store s" and "domain (heap s' sid) = domain (heap s sid)"
proof -
  let ?k = "DomainScopedKey (domain (heap s sid)) key"
  have "get_or 0 (bucketRefs s) ?k > 0" if "key \<in> set (keys (subscriptions (heap s sid)))"
    using live_subscribed_refs [OF assms(1) that] by simp
  moreover have "get_or 0 (bucketRefs s) ?k \<ge> 0"
    using refs_ok_nonneg [OF live_refs_ok [OF assms(1)]] .
  ultimately show "get_or 0 (bucketRefs s') k > 0 \<longleftrightarrow> k = ?k \<or> get_or 0 (bucketRefs s) k > 0"
    using assms(2) by (auto simp: subscribe_def Let_def upd_stream_def get_or_update split: if_splits)
  show "store s' = store s" "domain (heap s' sid) = domain (heap s sid)"
    using assms(2) by (auto simp: subscribe_def Let_def upd_stream_def upd_metrics_def split: if_splits)
qed

lemma subscribe_error: "subscribe sid key bid s = (s', Some e) \<Longrightarrow> s' = s"
  by (auto simp: subscribe_def Let_def split: if_splits)

context bucket_store
begin

lemma synced_release_ref:
  assumes "store_synced usage s" and "refs_ok (bucketRefs s)"
    and "get_or 0 (bucketRefs s) (DomainScopedKey d key) \<ge> 1"
  shows "store_synced usage (release_ref ops ctx d key s)"
proof -
  have "usage (store (release_ref ops ctx d key s)) k =
      (if k = DomainScopedKey d key \<and> get_or 0 (bucketRefs s) k \<le> 1 then None else usage (store s) k)" for k
    using usage_RemoveBucket [of ctx d key "store s" k]
    by (auto simp: release_ref_def Let_def split_beta get_or_update)
  then show ?thesis
    using assms release_ref_refs(2) [OF assms(2,3), of ops ctx] by (auto simp: store_synced_def)
qed

lemma synced_track_usage:
  assumes "store_synced usage s" and "live sid s"
  shows "store_synced usage (fst (track_usage ops ctx sid u s))"
proof (cases "GetBucketId u")
  case (Some bid)
  obtain s1 e where sub: "subscribe sid (BucketKeyFromProto (Some bid)) bid s = (s1, e)"
    by (cases "subscribe sid (BucketKeyFromProto (Some bid)) bid s")
  have "store_synced usage (record_report ops ctx sid (report_of u) s1)" if "e = None"
    using assms(1) subscribe_refs [OF assms(2) sub [unfolded that]] Some
    by (simp add: store_synced_def record_report_def split_beta usage_RecordUsage report_of_def)
  then show ?thesis
    using Some sub assms(1) subscribe_error [of sid _ bid s s1]
    by (auto simp: track_usage_def split: option.split)
qed (use assms in \<open>simp add: track_usage_def\<close>)

lemma synced_track_usages:
  "store_synced usage s \<Longrightarrow> live sid s \<Longrightarrow> domainBound (heap s sid) \<Longrightarrow>
    store_synced usage (fst (track_usages ops ctx sid us s))"
proof (induction us arbitrary: s)
  case (Cons u us)
  obtain s1 r where u: "track_usage ops ctx sid u s = (s1, r)" by (cases "track_usage ops ctx sid u s")
  have "store_synced usage s1" "live sid s1" "domainBound (heap s1 sid)"
    using synced_track_usage [OF Cons.prems(1,2), of ctx u] live_track_usage [OF Cons.prems(2,3), of ops ctx u]
      keeps_bound [OF keeps_track_usage [of sid s ops ctx u]] Cons.prems(3) u by simp_all
  then show ?case using Cons.IH [of s1] u by (auto split: prod.split sum.split)
qed simp

lemma synced_abandon_action:
  assumes "store_synced usage s" and "live sid s"
  shows "store_synced usage (abandon_action ops ctx sid a s)"
proof -
  let ?ss = "heap s sid" and ?key = "BucketKeyFromProto (ActionBucketId a)"
  let ?s1 = "upd_stream sid (\<lambda>ss. ss\<lparr>subscriptions := AList.delete ?key (subscriptions ss)\<rparr>) s"
  have "store_synced usage (release_ref ops ctx (domain ?ss) ?key ?s1)" if "?key \<in> set (keys (subscriptions ?ss))"
    using assms(1) live_subscribed_refs [OF assms(2) that] live_refs_ok [OF assms(2)]
    by (intro synced_release_ref) (simp_all add: upd_stream_def store_synced_def)
  then show ?thesis using assms(1) by (auto simp: abandon_action_def Let_def store_synced_def)
qed

lemma synced_abandon_actions:
  "store_synced usage s \<Longrightarrow> live sid s \<Longrightarrow> store_synced usage (abandon_actions ops ctx sid as s)"
  by (induction as arbitrary: s) (simp_all add: synced_abandon_action live_abandon_action)

lemma synced_answer_reports:
  assumes "store_synced usage s" and "live sid s"
  shows "store_synced usage (fst (answer_reports ops ctx sid reports s))"
proof -
  have "store_synced usage (abandon_actions ops ctx sid as (add_assignments l n (upd_metrics f (count_reports l' n' s))))"
    if "live sid (upd_metrics f (count_reports l' n' s))" for as l n f l' n'
    using that assms(1) by (intro synced_abandon_actions) (simp_all add: store_synced_def)
  then show ?thesis
    using assms by (auto simp: answer_reports_def Let_def store_synced_def split: sum.split)
qed

lemma synced_handleMessage:
  assumes "store_synced usage s" and "live sid s"
  shows "store_synced usage (fst (handleMessage ops sid req s))"
proof -
  obtain s1 e1 where b: "bind_domain sid req s = (s1, e1)" by (cases "bind_domain sid req s")
  let ?ctx = "StreamCtx (stream (heap s sid))"
  obtain s2 r where t: "track_usages ops ?ctx sid (GetBucketQuotaUsages req) s1 = (s2, r)"
    by (cases "track_usages ops ?ctx sid (GetBucketQuotaUsages req) s1")
  have s1: "store_synced usage s1" "live sid s1"
    using assms(1) live_bind_domain [OF assms(2), of req] bind_domain_frame [of sid req s] b
    by (simp_all add: store_synced_def)
  have s2: "store_synced usage s2" "live sid s2" if "e1 = None"
    using synced_track_usages [OF s1] live_track_usages [OF s1(2)] bind_domain_bound [of sid req s s1] b t that
    by (metis fst_conv)+
  show ?thesis
    using b t s1 s2 synced_answer_reports [of s2 sid]
    by (auto simp: handleMessage_def Let_def split: option.split sum.split)
qed

lemma synced_cleanup_keys:
  assumes "store_synced usage s" and "refs_ok (bucketRefs s)" and "\<And>k. R k \<ge> 0"
    and "\<And>k. get_or 0 (bucketRefs s) k = R k + int (length (filter (\<lambda>key. DomainScopedKey d key = k) ks))"
  shows "store_synced usage (cleanup_keys ops d l ks s)"
  using assms(1,2,4)
proof (induction ks arbitrary: s)
  case (Cons key ks)
  have ge: "get_or 0 (bucketRefs (dec_active_buckets l s)) (DomainScopedKey d key) \<ge> 1"
    using Cons.prems(3) [of "DomainScopedKey d key"] assms(3) [of "DomainScopedKey d key"] by simp
  have ok: "refs_ok (bucketRefs (dec_active_buckets l s))" "store_synced usage (dec_active_buckets l s)"
    using Cons.prems(1,2) by (simp_all add: store_synced_def)
  note rel = release_ref_refs [OF ok(1) ge, of ops Background]
  show ?case
    using Cons.IH [OF synced_release_ref [OF ok(2,1) ge] rel(1)] Cons.prems(3) by (simp add: rel(2))
qed simp

lemma synced_close_stream:
  assumes "store_synced usage s" and "live sid s"
  shows "store_synced usage (close_stream ops sid s)"
proof -
  let ?base = "upd_metrics (\<lambda>m. m\<lparr>ActiveStreams := ActiveStreams m - 1\<rparr>) s\<lparr>streams := remove1 sid (streams s)\<rparr>"
  let ?ss = "heap s sid" and ?R = "\<lambda>k. get_or 0 (bucketRefs s) k - refs_of (heap s sid) k"
  have base: "store_synced usage ?base" "refs_ok (bucketRefs ?base)"
    using assms(1) live_refs_ok [OF assms(2)] by (simp_all add: store_synced_def)
  have "store_synced usage (cleanup_keys ops (domain ?ss) (metricDomain ?ss) (keys (subscriptions ?ss)) ?base)"
    using live_refs_le [OF assms(2)] base
    by (intro synced_cleanup_keys [where R = ?R]) (simp_all add: refs_of_def key_count_def)
  then show ?thesis
    using base(1) by (simp add: close_stream_def cleanupStream_def upd_metrics_def Let_def)
qed

lemma synced_step:
  assumes "server_step ops s s'" and "server_inv s" and "store_synced usage s"
  shows "store_synced usage s'"
  using assms(1)
proof cases
  case (step_open g)
  then show ?thesis using assms(3) by (simp add: open_stream_def Let_def store_synced_def)
next
  case (step_message sid req)
  then show ?thesis using synced_handleMessage [of s sid req] assms by (simp add: live_def)
next
  case (step_failure sid req t e)
  then have "live sid t" "store_synced usage t"
    using live_handleMessage [of sid s ops req] synced_handleMessage [of s sid req] assms
    by (simp_all add: live_def)
  then show ?thesis using step_failure synced_close_stream by blast
next
  case (step_disconnect sid)
  then show ?thesis using assms synced_close_stream [of s sid] by (simp add: live_def)
next
  case (step_swap e)
  then show ?thesis using assms(3) by (auto simp: SwapEngine_def engine_Store_def store_synced_def split: if_splits)
next
  case (step_push i)
  then show ?thesis using assms(3) by (simp add: run_push_def pushAssignments_def store_synced_def)
next
  case (step_classifier c)
  then show ?thesis using assms(3) by (simp add: SwapDomainClassifier_def store_synced_def)
qed

lemma synced_reachable:
  "reachable ops init s \<Longrightarrow> server_inv init \<Longrightarrow> store_synced usage init \<Longrightarrow> store_synced usage s"
  by (induction rule: reachable.induct) (blast intro: synced_step server_inv_reachable)+

end

section \<open>Invariants of the store\<close>

text \<open>What the two methods of a store keep, every step of the server keeps.\<close>

context store_invariant
begin

lemma holds_release_ref: "P (store s) \<Longrightarrow> P (store (release_ref ops ctx d key s))"
  by (simp add: release_ref_def Let_def split_beta P_RemoveBucket)

lemma holds_track_usages: "P (store s) \<Longrightarrow> P (store (fst (track_usages ops ctx sid us s)))"
proof (induction us arbitrary: s)
  case (Cons u us)
  have "store (fst (subscribe sid key bid s)) = store s" for key bid
    by (simp add: subscribe_def Let_def upd_stream_def)
  then have "P (store (fst (track_usage ops ctx sid u s)))"
    using Cons.prems by (auto simp: track_usage_def record_report_def split_beta P_RecordUsage
        split: option.split prod.split dest!: arg_cong [of _ _ fst])
  then show ?case using Cons.IH by (fastforce split: prod.split sum.split)
qed simp

lemma holds_abandon_actions: "P (store s) \<Longrightarrow> P (store (abandon_actions ops ctx sid as s))"
  by (induction as arbitrary: s) (simp_all add: abandon_action_def Let_def holds_release_ref upd_stream_def)

lemma holds_answer_reports: "P (store s) \<Longrightarrow> P (store (fst (answer_reports ops ctx sid reports s)))"
  by (auto simp: answer_reports_def Let_def holds_abandon_actions split: sum.split)

lemma holds_handleMessage: "P (store s) \<Longrightarrow> P (store (fst (handleMessage ops sid req s)))"
  using holds_track_usages [of "fst (bind_domain sid req s)"]
  by (auto simp: handleMessage_def Let_def split: prod.split option.split sum.split
      intro!: holds_answer_reports dest!: arg_cong [of _ _ fst])

lemma holds_cleanup_keys: "P (store s) \<Longrightarrow> P (store (cleanup_keys ops d l ks s))"
  by (induction ks arbitrary: s) (simp_all add: holds_release_ref)

lemma holds_close_stream: "P (store s) \<Longrightarrow> P (store (close_stream ops sid s))"
  by (simp add: close_stream_def cleanupStream_def Let_def holds_cleanup_keys)

lemma holds_step: "server_step ops s s' \<Longrightarrow> P (store s) \<Longrightarrow> P (store s')"
proof (induction rule: server_step.induct)
  case (step_message sid s req s')
  then show ?case using holds_handleMessage [of s sid req] by simp
next
  case (step_failure sid s req s' e)
  then show ?case using holds_handleMessage [of s sid req] holds_close_stream [of s'] by simp
qed (auto simp: open_stream_def Let_def holds_close_stream SwapEngine_def engine_Store_def run_push_def
      pushAssignments_def SwapDomainClassifier_def split: if_splits)

lemma holds_reachable: "reachable ops init s \<Longrightarrow> P (store init) \<Longrightarrow> P (store s)"
  by (induction rule: reachable.induct) (simp_all add: holds_step)

end

section \<open>Properties of every reachable state\<close>

lemma example_reachable: "reachable MemoryStorage_store example_init example_run"
proof -
  have "server_step MemoryStorage_store example_init example_open"
    unfolding example_open_def by (rule step_open)
  moreover have "server_step MemoryStorage_store example_open example_run"
    using step_message [OF _ example_handled] example_streams by simp
  ultimately show ?thesis by (blast intro: reach_init reach_step)
qed

lemma example_run_inv: "server_inv example_run"
  using server_inv_reachable [OF example_reachable] by (simp add: example_init_def server_inv_NewRLQS)

text \<open>
  C3. Whatever clients, swaps and pushes do, in every reachable state of a new server the
  reference count of a scoped bucket key is the number of subscriptions registered streams hold
  for it, both gauges show the real numbers of streams and subscriptions, and every subscription
  is within the limits, validated, on a bound stream and filed under its canonical key.
\<close>

theorem reachable_server_inv:
  assumes "reachable ops (NewRLQS compile st eng cfg cl) s"
  shows "server_inv s"
  using server_inv_reachable [OF assms server_inv_NewRLQS] .

theorem reachable_server_inv_witness:
  "reachable MemoryStorage_store example_init example_run \<and> server_inv example_run
   \<and> get_or 0 (bucketRefs example_run) (DomainScopedKey ''d'' (''name'' @ [CHR 0x00] @ ''a'')) = 1"
proof -
  have "server_inv example_run"
    using reachable_server_inv [OF example_reachable [unfolded example_init_def]] .
  moreover have "get_or 0 (bucketRefs example_run) (DomainScopedKey ''d'' (''name'' @ [CHR 0x00] @ ''a'')) = 1"
    by code_simp
  ultimately show ?thesis using example_reachable by simp
qed

lemma refs_positive_iff:
  assumes "server_inv s"
  shows "get_or 0 (bucketRefs s) k > 0 \<longleftrightarrow>
    (\<exists>sid \<in> set (streams s). \<exists>key \<in> set (keys (subscriptions (heap s sid))).
       DomainScopedKey (domain (heap s sid)) key = k)"
proof
  assume "get_or 0 (bucketRefs s) k > 0"
  then have "(\<Sum>sid\<leftarrow>streams s. refs_of (heap s sid) k) \<noteq> 0" using assms by (simp add: server_inv_def)
  then obtain sid where "sid \<in> set (streams s)" "refs_of (heap s sid) k \<noteq> 0"
    using sum_list_nonzero [of "\<lambda>sid. refs_of (heap s sid) k"] by blast
  then show "\<exists>sid \<in> set (streams s). \<exists>key \<in> set (keys (subscriptions (heap s sid))).
       DomainScopedKey (domain (heap s sid)) key = k"
    by (force simp: refs_of_def key_count_def filter_empty_conv)
next
  assume "\<exists>sid \<in> set (streams s). \<exists>key \<in> set (keys (subscriptions (heap s sid))).
       DomainScopedKey (domain (heap s sid)) key = k"
  then obtain sid key where "live sid s" "key \<in> set (keys (subscriptions (heap s sid)))"
      "DomainScopedKey (domain (heap s sid)) key = k"
    using assms by (auto simp: live_def)
  then show "get_or 0 (bucketRefs s) k > 0" using live_subscribed_refs by fastforce
qed

lemma synced_new_memory: "store_synced memory_usage (NewRLQS compile NewMemoryStorage eng cfg cl)"
  by (simp add: store_synced_def NewRLQS_def NewMemoryStorage_def memory_usage_def get_or_def)



text \<open>
  When no stream is registered any more, nothing is left behind: no reference counts, an
  empty store, and both gauges back at zero.
\<close>

theorem no_streams_no_residue:
  assumes "reachable MemoryStorage_store (NewRLQS compile NewMemoryStorage eng cfg cl) s"
    and "streams s = []"
  shows "bucketRefs s = [] \<and> buckets (store s) = []
    \<and> ActiveStreams (metrics s) = 0 \<and> ActiveBuckets (metrics s) l = 0"
proof -
  have inv: "server_inv s" using server_inv_reachable [OF assms(1) server_inv_NewRLQS] .
  note quiet = server_inv_quiescent [OF inv assms(2)]
  have "store_synced memory_usage s"
    using memory.synced_reachable [OF assms(1) server_inv_NewRLQS synced_new_memory] .
  then have "map_of (buckets (store s)) k = None" for k
    using quiet(1) by (simp add: store_synced_def memory_usage_def get_or_def)
  then have "buckets (store s) = []" by (rule map_of_all_None)
  with quiet show ?thesis by simp
qed

definition example_closed :: "MemoryStorage RLQSServer" where
  "example_closed = close_stream MemoryStorage_store 0 example_run"

theorem no_streams_no_residue_witness:
  "streams example_closed = [] \<and> bucketRefs example_closed = [] \<and> buckets (store example_closed) = []
   \<and> buckets (store example_run) \<noteq> []"
proof -
  have "server_step MemoryStorage_store example_run example_closed"
    unfolding example_closed_def by (rule step_disconnect) (simp add: example_streams)
  then have reach: "reachable MemoryStorage_store example_init example_closed"
    using example_reachable by (rule reach_step [rotated])
  have none: "streams example_closed = []" by code_simp
  note clean = no_streams_no_residue [OF reach [unfolded example_init_def] none]
  have "length (buckets (store example_run)) = 1" by code_simp
  then show ?thesis using none clean by auto
qed

end
