(* ===== verification/Server_Behaviour.thy ===== *)
theory Server_Behaviour
  imports Server_Reachable
begin

text \<open>
  What the handlers of \<open>src/internal/server/server.go\<close> do for their clients: exactly which
  messages are accepted, the assignments, usage and subscriptions an accepted message leads to,
  the life cycle of a whole stream, and the delivery of fresh assignments after an engine swap.
\<close>

section \<open>Acceptable messages\<close>

definition named :: "BucketQuotaUsage \<Rightarrow> bool" where
  "named u \<longleftrightarrow> has_bucket (GetBucketId u)"

definition usage_key :: "BucketQuotaUsage \<Rightarrow> BucketKey" where
  "usage_key u = BucketKeyFromProto (GetBucketId u)"

definition usage_valid :: "'st RLQSServer \<Rightarrow> BucketQuotaUsage \<Rightarrow> bool" where
  "usage_valid s u \<longleftrightarrow> (case GetBucketId u of None \<Rightarrow> True | Some b \<Rightarrow> validate_bucket s (Bucket b) = None)"

definition usage_keys :: "BucketQuotaUsage list \<Rightarrow> BucketKey set" where
  "usage_keys us = usage_key ` set (filter named us)"

definition subscribed :: "nat \<Rightarrow> 'st RLQSServer \<Rightarrow> BucketKey set" where
  "subscribed sid s = set (keys (subscriptions (heap s sid)))"

definition capacity_ok :: "'st RLQSServer \<Rightarrow> BucketKey set \<Rightarrow> bool" where
  "capacity_ok s K \<longleftrightarrow> (maxBucketsPerStream s > 0 \<longrightarrow> int (card K) \<le> maxBucketsPerStream s)"

definition usages_ok :: "nat \<Rightarrow> BucketQuotaUsage list \<Rightarrow> 'st RLQSServer \<Rightarrow> bool" where
  "usages_ok sid us s \<longleftrightarrow>
     (\<forall>u \<in> set (filter named us). usage_valid s u) \<and> capacity_ok s (subscribed sid s \<union> usage_keys us)"

definition reports_ok :: "BucketQuotaUsage list \<Rightarrow> 'st RLQSServer \<Rightarrow> bool" where
  "reports_ok us s \<longleftrightarrow> (maxReportsPerMessage s > 0 \<longrightarrow> int (length us) \<le> maxReportsPerMessage s)"

text \<open>The domain a stream has once the message is accepted, and the conditions on the message.\<close>

definition effective_domain :: "nat \<Rightarrow> RateLimitQuotaUsageReports \<Rightarrow> 'st RLQSServer \<Rightarrow> string" where
  "effective_domain sid req s =
     (if domainBound (heap s sid) then domain (heap s sid) else GetDomain req)"

definition domain_ok :: "nat \<Rightarrow> RateLimitQuotaUsageReports \<Rightarrow> 'st RLQSServer \<Rightarrow> bool" where
  "domain_ok sid req s \<longleftrightarrow>
     (if domainBound (heap s sid) then GetDomain req \<in> {[], domain (heap s sid)} else GetDomain req \<noteq> [])"

definition acceptable :: "nat \<Rightarrow> RateLimitQuotaUsageReports \<Rightarrow> 'st RLQSServer \<Rightarrow> bool" where
  "acceptable sid req s \<longleftrightarrow>
     domain_ok sid req s \<and> reports_ok (GetBucketQuotaUsages req) s \<and> usages_ok sid (GetBucketQuotaUsages req) s"

text \<open>The usage a scoped key has after a list of reports of one domain.\<close>

fun usage_after :: "string \<Rightarrow> BucketKey \<Rightarrow> UsageReport list \<Rightarrow> UsageState option \<Rightarrow> UsageState option" where
  "usage_after d k [] v = v"
| "usage_after d k (r # rs) v = usage_after d k rs (if report_key d r = k then Some (add_usage r v) else v)"

text \<open>The two gauges.\<close>

definition metrics_gauges :: "'st RLQSServer \<Rightarrow> int \<times> (string \<Rightarrow> int)" where
  "metrics_gauges s = (ActiveStreams (metrics s), ActiveBuckets (metrics s))"

section \<open>Tracking\<close>

text \<open>What the loop over the usages has done when it ends without error.\<close>

definition tracked ::
  "'st BucketStore \<Rightarrow> go_context \<Rightarrow> nat \<Rightarrow> BucketQuotaUsage list \<Rightarrow> 'st RLQSServer \<Rightarrow> 'st RLQSServer \<Rightarrow> bool" where
  "tracked ops ctx sid us s s' \<longleftrightarrow>
     subscribed sid s' = subscribed sid s \<union> usage_keys us
     \<and> store s' = fold (\<lambda>r st. fst (RecordUsage ops ctx (domain (heap s sid)) r st))
                    (map report_of (filter named us)) (store s)
     \<and> delivered (heap s' sid) = delivered (heap s sid)
     \<and> domain (heap s' sid) = domain (heap s sid)
     \<and> keeps sid s s' \<and> live sid s' \<and> domainBound (heap s' sid)"

lemma track_usage_unnamed: "\<not> named u \<Longrightarrow> track_usage ops ctx sid u s = (s, Inr None)"
  by (auto simp: track_usage_def named_def has_bucket_def split: option.splits)

lemma live_card: "live sid s \<Longrightarrow> card (subscribed sid s) = length (subscriptions (heap s sid))"
  using distinct_card [of "keys (subscriptions (heap s sid))"] live_stream_ok [of sid s]
  by (simp add: stream_ok_def subscribed_def)

lemma capacity_ok_mono: "capacity_ok s K \<Longrightarrow> L \<subseteq> K \<Longrightarrow> finite K \<Longrightarrow> capacity_ok s L"
  using card_mono [of K L] by (force simp: capacity_ok_def)

lemma finite_keys [simp]: "finite (subscribed sid s)" "finite (usage_keys us)"
  by (simp_all add: subscribed_def usage_keys_def)

lemma subscribe_outcome:
  assumes "live sid s"
  shows "snd (subscribe sid key bid s) = None \<longleftrightarrow> capacity_ok s (insert key (subscribed sid s))"
    and "snd (subscribe sid key bid s) = None \<Longrightarrow>
      subscribed sid (fst (subscribe sid key bid s)) = insert key (subscribed sid s)
      \<and> delivered (heap (fst (subscribe sid key bid s)) sid) = delivered (heap s sid)"
proof -
  have len: "length (subscriptions (heap s sid)) = card (subscribed sid s)" using live_card [OF assms] by simp
  have cap: "capacity_ok s (subscribed sid s)"
    using live_stream_ok [OF assms] by (simp add: capacity_ok_def stream_ok_def len)
  have ins: "card (insert key (subscribed sid s)) =
      (if key \<in> subscribed sid s then card (subscribed sid s) else Suc (card (subscribed sid s)))"
    by (simp add: card_insert_if)
  show "snd (subscribe sid key bid s) = None \<longleftrightarrow> capacity_ok s (insert key (subscribed sid s))"
    using cap ins by (auto simp: subscribe_def Let_def capacity_ok_def len subscribed_def)
  show "snd (subscribe sid key bid s) = None \<Longrightarrow>
      subscribed sid (fst (subscribe sid key bid s)) = insert key (subscribed sid s)
      \<and> delivered (heap (fst (subscribe sid key bid s)) sid) = delivered (heap s sid)"
    by (auto simp: subscribe_def Let_def subscribed_def upd_stream_def upd_metrics_def gomap_simps
        split: if_splits)
qed

lemma track_usage_named:
  assumes "live sid s" and "domainBound (heap s sid)" and "named u"
  shows "if usage_valid s u \<and> capacity_ok s (insert (usage_key u) (subscribed sid s))
    then \<exists>s'. track_usage ops ctx sid u s = (s', Inr (Some (report_of u))) \<and> tracked ops ctx sid [u] s s'
    else \<exists>s' e. track_usage ops ctx sid u s = (s', Inl e)"
proof -
  obtain b where b: "GetBucketId u = Some b" "Bucket b \<noteq> []"
    using assms(3) by (auto simp: named_def has_bucket_def split: option.splits)
  let ?key = "BucketKeyFromProto (Some b)"
  obtain s1 e where sub: "subscribe sid ?key b s = (s1, e)" by (cases "subscribe sid ?key b s")
  let ?s = "record_report ops ctx sid (report_of u) s1"
  have key: "usage_key u = ?key" and valid: "usage_valid s u \<longleftrightarrow> validate_bucket s (Bucket b) = None"
    by (simp_all add: usage_key_def usage_valid_def b)
  note out = subscribe_outcome [OF assms(1), of ?key b, unfolded sub fst_conv snd_conv]
  have run: "track_usage ops ctx sid u s =
      (case validate_bucket s (Bucket b) of Some x \<Rightarrow> (s, Inl x)
       | None \<Rightarrow> (case e of Some x \<Rightarrow> (s1, Inl x) | None \<Rightarrow> (?s, Inr (Some (report_of u)))))"
    using b sub by (simp add: track_usage_def split: option.split)
  have tr: "tracked ops ctx sid [u] s ?s" if ok: "validate_bucket s (Bucket b) = None" "e = None"
  proof -
    have "live sid s1" using live_subscribe [OF assms(1,2) b(2) ok(1)] sub by simp
    moreover have "keeps sid s s1" using keeps_subscribe [of sid s ?key b] sub by simp
    moreover have "store s1 = store s" "domain (heap s1 sid) = domain (heap s sid)"
      using subscribe_refs(2,3) [OF assms(1) sub [unfolded ok(2)]] by simp_all
    moreover have "domainBound (heap s1 sid)" using \<open>keeps sid s s1\<close> assms(2) keeps_bound by blast
    ultimately show ?thesis
      using out(2) [OF ok(2)] assms(3) key keeps_trans [OF _ keeps_record_report]
      by (simp add: tracked_def usage_keys_def subscribed_def record_report_def split_beta)
        (simp add: keeps_def same_limits_def)
  qed
  show ?thesis using tr out(1) by (auto simp: run key valid split: option.split)
qed

lemma tracked_Nil: "live sid s \<Longrightarrow> domainBound (heap s sid) \<Longrightarrow> tracked ops ctx sid [] s s"
  by (simp add: tracked_def usage_keys_def)

lemma tracked_Cons:
  "tracked ops ctx sid [u] s s1 \<Longrightarrow> tracked ops ctx sid us s1 s2 \<Longrightarrow> tracked ops ctx sid (u # us) s s2"
  by (auto simp: tracked_def usage_keys_def intro: keeps_trans)

lemma keeps_limits:
  assumes "keeps sid s s1"
  shows "capacity_ok s1 K = capacity_ok s K" and "usage_valid s1 u = usage_valid s u"
  using assms keeps_validate [OF assms]
  by (simp_all add: capacity_ok_def usage_valid_def keeps_def same_limits_def split: option.split)

lemma tracked_limits:
  "tracked ops ctx sid us s s1 \<Longrightarrow> capacity_ok s1 K = capacity_ok s K \<and> usage_valid s1 u = usage_valid s u"
  using keeps_limits [of sid s s1] by (simp add: tracked_def)

lemma track_usages_outcome:
  assumes "live sid s" and "domainBound (heap s sid)"
  shows "if usages_ok sid us s
    then \<exists>s'. track_usages ops ctx sid us s = (s', Inr (map report_of (filter named us))) \<and> tracked ops ctx sid us s s'
    else \<exists>s' e. track_usages ops ctx sid us s = (s', Inl e)"
  using assms
proof (induction us arbitrary: s)
  case Nil
  have "capacity_ok s (subscribed sid s)"
    using live_stream_ok [OF Nil(1)] by (simp add: capacity_ok_def stream_ok_def live_card [OF Nil(1)])
  then show ?case using tracked_Nil [OF Nil] by (simp add: usages_ok_def usage_keys_def)
next
  case (Cons u us)
  show ?case
  proof (cases "named u")
    case False
    then have "tracked ops ctx sid (u # us) = tracked ops ctx sid us" and "usages_ok sid (u # us) s = usages_ok sid us s"
      by (simp_all add: tracked_def usages_ok_def usage_keys_def fun_eq_iff)
    with False show ?thesis
      using Cons.IH [OF Cons.prems] by (auto simp: track_usage_unnamed split: if_splits prod.split sum.split)
  next
    case named: True
    let ?ok = "usage_valid s u \<and> capacity_ok s (insert (usage_key u) (subscribed sid s))"
    have keys: "usage_keys (u # us) = insert (usage_key u) (usage_keys us)" using named by (simp add: usage_keys_def)
    show ?thesis
    proof (cases ?ok)
      case True
      then obtain s1 where s1: "track_usage ops ctx sid u s = (s1, Inr (Some (report_of u)))" "tracked ops ctx sid [u] s s1"
        using track_usage_named [OF Cons.prems named, of ops ctx] by auto
      have "live sid s1" "domainBound (heap s1 sid)" "subscribed sid s1 = insert (usage_key u) (subscribed sid s)"
        using s1(2) named by (simp_all add: tracked_def usage_keys_def)
      with Cons.IH [of s1] show ?thesis
        using True named s1 tracked_limits [OF s1(2)] tracked_Cons [OF s1(2)]
        by (auto simp: usages_ok_def keys split: if_splits)
    next
      case False
      then have "\<exists>s' e. track_usages ops ctx sid (u # us) s = (s', Inl e)"
        using track_usage_named [OF Cons.prems named, of ops ctx] by auto
      moreover have "\<not> usages_ok sid (u # us) s"
        using False named capacity_ok_mono [of s "subscribed sid s \<union> usage_keys (u # us)"]
        by (auto simp: usages_ok_def keys)
      ultimately show ?thesis by (simp only: if_False)
    qed
  qed
qed

section \<open>Handling a message\<close>

lemma bind_domain_outcome:
  "snd (bind_domain sid req s) = None \<longleftrightarrow> domain_ok sid req s"
  "domain_ok sid req s \<Longrightarrow> domain (heap (fst (bind_domain sid req s)) sid) = effective_domain sid req s"
  "subscriptions (heap (fst (bind_domain sid req s)) sid) = subscriptions (heap s sid)"
  "delivered (heap (fst (bind_domain sid req s)) sid) = delivered (heap s sid)"
  by (auto simp: bind_domain_def domain_ok_def effective_domain_def classifyDomain_def upd_stream_def
      Let_def split_beta)

lemma abandon_actions_none: "\<forall>a \<in> set as. \<not> is_abandon a \<Longrightarrow> abandon_actions ops ctx sid as s = s"
  by (induction as arbitrary: s) (simp_all add: abandon_action_def)

lemma named_report [simp]: "ReportBucketId (report_of u) = GetBucketId u"
  by (simp add: report_of_def)

lemma has_bucket_reports: "filter (\<lambda>r. has_bucket (ReportBucketId r)) (map report_of (filter named us)) =
    map report_of (filter named us)"
  by (induction us) (simp_all add: named_def)

lemma metrics_heap [simp]:
  "heap (add_assignments l n s) = heap s" "heap (count_reports l n s) = heap s" "heap (upd_metrics f s) = heap s"
  "engine (add_assignments l n s) = engine s" "engine (count_reports l n s) = engine s"
  by (simp_all add: add_assignments_def count_reports_def upd_metrics_def)

text \<open>The response to a list of usages by an engine that decides per bucket.\<close>

definition response_to ::
  "(string \<Rightarrow> BucketKey \<Rightarrow> QuotaAssignmentAction) \<Rightarrow> string \<Rightarrow> BucketQuotaUsage list \<Rightarrow> RateLimitQuotaResponse list" where
  "response_to decide d us =
     (if filter named us = [] then []
      else [\<lparr>GetBucketAction = map (\<lambda>u. \<lparr>ActionBucketId = GetBucketId u,
              ActionKind = QuotaAssignment (decide d (usage_key u))\<rparr>) (filter named us)\<rparr>])"

lemma answer_reports_assigns:
  assumes "quota_engine (ProcessUsage (engine s)) decide"
    and "\<And>h r. Send (stream (heap s sid)) h r = None"
  shows "\<exists>s'. answer_reports ops ctx sid (map report_of (filter named us)) s = (s', None)
    \<and> delivered (heap s' sid) = delivered (heap s sid) @ response_to decide (domain (heap s sid)) us
    \<and> store s' = store s \<and> subscribed sid s' = subscribed sid s"
proof -
  let ?as = "map (\<lambda>u. \<lparr>ActionBucketId = GetBucketId u,
      ActionKind = QuotaAssignment (decide (domain (heap s sid)) (usage_key u))\<rparr>) (filter named us)"
  have eng: "ProcessUsage (engine s) c d (map report_of (filter named us)) =
      Inr (map (\<lambda>u. \<lparr>ActionBucketId = GetBucketId u, ActionKind = QuotaAssignment (decide d (usage_key u))\<rparr>)
        (filter named us))" for c d
    using quota_engine.ProcessUsage_eq [OF assms(1)]
    by (simp add: has_bucket_reports comp_def usage_key_def)
  have none: "\<forall>a \<in> set ?as. \<not> is_abandon a" by (auto simp: is_abandon_def)
  show ?thesis
    using assms(2)
    by (simp add: answer_reports_def Let_def eng abandon_actions_none [OF none] send_response_def
        response_to_def subscribed_def upd_stream_def)
qed

lemma empty_message: "live sid s \<Longrightarrow> capacity_ok s (subscribed sid s)"
  using live_stream_ok [of sid s] live_card [of sid s] by (simp add: capacity_ok_def stream_ok_def)

lemma acceptable_after_bind:
  assumes "bind_domain sid req s = (s1, None)"
  shows "acceptable sid req s \<longleftrightarrow>
    reports_ok (GetBucketQuotaUsages req) s1 \<and> usages_ok sid (GetBucketQuotaUsages req) s1"
proof -
  have k: "keeps sid s s1" using keeps_bind_domain [of sid s req] assms by simp
  have "domain_ok sid req s" using bind_domain_outcome(1) [of sid req s] assms by simp
  moreover have "subscribed sid s1 = subscribed sid s"
    using bind_domain_outcome(3) [of sid req s] assms by (simp add: subscribed_def)
  moreover have "maxReportsPerMessage s1 = maxReportsPerMessage s"
    using k by (simp add: keeps_def same_limits_def)
  ultimately show ?thesis by (simp add: acceptable_def reports_ok_def usages_ok_def keeps_limits [OF k])
qed

lemma rejected_message:
  assumes "live sid s" and "\<not> acceptable sid req s"
  shows "\<exists>s' e. handleMessage ops sid req s = (s', Some e)"
proof (cases "bind_domain sid req s")
  case (Pair s1 e1)
  show ?thesis
  proof (cases e1)
    case (Some e)
    then show ?thesis using Pair by (simp add: handleMessage_def)
  next
    case None
    have l1: "live sid s1" "domainBound (heap s1 sid)"
      using live_bind_domain [OF assms(1), of req] bind_domain_bound Pair None by auto
    note acc = acceptable_after_bind [OF Pair [unfolded None]]
    have ne: "GetBucketQuotaUsages req \<noteq> []"
      using assms(2) acc empty_message [OF l1(1)] by (auto simp: reports_ok_def usages_ok_def usage_keys_def)
    show ?thesis
    proof (cases "reports_ok (GetBucketQuotaUsages req) s1")
      case True
      then obtain s' e where
        "track_usages ops (StreamCtx (stream (heap s sid))) sid (GetBucketQuotaUsages req) s1 = (s', Inl e)"
        using track_usages_outcome [OF l1, of "GetBucketQuotaUsages req" ops "StreamCtx (stream (heap s sid))"]
          acc assms(2) by auto
      then show ?thesis using True ne Pair None by (auto simp: handleMessage_def Let_def reports_ok_def)
    next
      case False
      then show ?thesis using ne Pair None by (auto simp: handleMessage_def Let_def reports_ok_def)
    qed
  qed
qed

lemma keeps_live_stream: "keeps sid s s' \<Longrightarrow> stream (heap s' sid) = stream (heap s sid) \<and> engine s' = engine s"
  by (simp add: keeps_def)

lemma accepted_message_store:
  assumes "live sid s" and "acceptable sid req s"
    and "quota_engine (ProcessUsage (engine s)) decide"
    and "\<And>h r. Send (stream (heap s sid)) h r = None"
  shows "\<exists>s'. handleMessage ops sid req s = (s', None)
    \<and> domain (heap s' sid) = effective_domain sid req s \<and> domainBound (heap s' sid)
    \<and> subscribed sid s' = subscribed sid s \<union> usage_keys (GetBucketQuotaUsages req)
    \<and> store s' = fold (\<lambda>r st. fst (RecordUsage ops (StreamCtx (stream (heap s sid))) (effective_domain sid req s) r st))
          (map report_of (filter named (GetBucketQuotaUsages req))) (store s)
    \<and> delivered (heap s' sid) = delivered (heap s sid)
        @ response_to decide (effective_domain sid req s) (GetBucketQuotaUsages req)"
proof -
  let ?us = "GetBucketQuotaUsages req" and ?ctx = "StreamCtx (stream (heap s sid))"
  let ?d = "effective_domain sid req s"
  have dok: "domain_ok sid req s" using assms(2) by (simp add: acceptable_def)
  obtain s1 where b: "bind_domain sid req s = (s1, None)"
    using bind_domain_outcome(1) [of sid req s] dok by (cases "bind_domain sid req s") auto
  have l1: "live sid s1" "domainBound (heap s1 sid)" "keeps sid s s1"
    using live_bind_domain [OF assms(1), of req] bind_domain_bound [OF b] keeps_bind_domain [of sid s req] b by simp_all
  have f1: "domain (heap s1 sid) = ?d" "subscribed sid s1 = subscribed sid s" "store s1 = store s"
      "delivered (heap s1 sid) = delivered (heap s sid)"
    using bind_domain_outcome [of sid req s] bind_domain_frame [of sid req s] dok b by (simp_all add: subscribed_def)
  note acc = acceptable_after_bind [OF b]
  show ?thesis
  proof (cases "?us = []")
    case True
    then show ?thesis using b f1 l1 by (simp add: handleMessage_def Let_def usage_keys_def response_to_def)
  next
    case False
    obtain s2 where s2: "track_usages ops ?ctx sid ?us s1 = (s2, Inr (map report_of (filter named ?us)))"
        "tracked ops ?ctx sid ?us s1 s2"
      using track_usages_outcome [OF l1(1,2), of ?us ops ?ctx] acc assms(2) by (auto split: if_splits)
    have k2: "stream (heap s2 sid) = stream (heap s sid)" "engine s2 = engine s" "domainBound (heap s2 sid)"
      using keeps_live_stream [OF l1(3)] keeps_live_stream [of sid s1 s2] s2(2) by (simp_all add: tracked_def)
    obtain s3 where s3: "answer_reports ops ?ctx sid (map report_of (filter named ?us)) s2 = (s3, None)"
        "delivered (heap s3 sid) = delivered (heap s2 sid) @ response_to decide (domain (heap s2 sid)) ?us"
        "store s3 = store s2" "subscribed sid s3 = subscribed sid s2"
      using answer_reports_assigns [of s2 decide sid ops ?ctx ?us] assms(3,4) k2 by auto
    have k3: "domain (heap s3 sid) = domain (heap s2 sid)" "domainBound (heap s3 sid)"
      using keeps_answer_reports [of sid s2 ops ?ctx "map report_of (filter named ?us)"] s3(1) k2(3)
      by (simp_all add: keeps_def)
    have "handleMessage ops sid req s = (s3, None)"
      using b False acc assms(2) s2(1) s3(1) by (auto simp: handleMessage_def Let_def reports_ok_def)
    then show ?thesis
      using s2(2) s3 k3 f1 by (simp add: tracked_def)
  qed
qed

context bucket_store
begin

lemma usage_fold: "usage (fold (\<lambda>r st. fst (RecordUsage ops ctx d r st)) rs st) k = usage_after d k rs (usage st k)"
  by (induction rs arbitrary: st) (simp_all add: usage_RecordUsage)

lemma accepted_message:
  assumes "live sid s" and "acceptable sid req s"
    and "quota_engine (ProcessUsage (engine s)) decide"
    and "\<And>h r. Send (stream (heap s sid)) h r = None"
  shows "\<exists>s'. handleMessage ops sid req s = (s', None)
    \<and> domain (heap s' sid) = effective_domain sid req s \<and> domainBound (heap s' sid)
    \<and> subscribed sid s' = subscribed sid s \<union> usage_keys (GetBucketQuotaUsages req)
    \<and> (\<forall>k. usage (store s') k = usage_after (effective_domain sid req s) k
          (map report_of (filter named (GetBucketQuotaUsages req))) (usage (store s) k))
    \<and> delivered (heap s' sid) = delivered (heap s sid)
        @ response_to decide (effective_domain sid req s) (GetBucketQuotaUsages req)"
  using accepted_message_store [OF assms, of ops] by (auto simp: usage_fold)

end

lemma quota_engine_value: "quota_engine (ProcessUsage (Engine_value cfg)) (policy_decision cfg)"
  by (simp add: Engine_value_def policy_engine.quota_engine_axioms)

text \<open>
  C7. On a registered stream of a server with the policy engine, a message is handled exactly
  when it is acceptable: its domain fits the stream, it has not too many reports, every named
  bucket is valid, and old and new buckets together fit the stream's limit. An accepted message
  binds the stream, subscribes it to the named buckets, adds every report to the usage of its
  bucket under the stream's domain and nothing else to the store, and sends one response with
  the policy's assignment for each named report, in order.
\<close>

theorem handleMessage_accepts:
  assumes "server_inv s" and "sid \<in> set (streams s)"
    and "engine s = Engine_value cfg" and "\<And>h r. Send (stream (heap s sid)) h r = None"
  shows "if acceptable sid req s
    then \<exists>s'. handleMessage MemoryStorage_store sid req s = (s', None)
      \<and> domain (heap s' sid) = effective_domain sid req s \<and> domainBound (heap s' sid)
      \<and> subscribed sid s' = subscribed sid s \<union> usage_keys (GetBucketQuotaUsages req)
      \<and> (\<forall>k. memory_usage (store s') k = usage_after (effective_domain sid req s) k
            (map report_of (filter named (GetBucketQuotaUsages req))) (memory_usage (store s) k))
      \<and> delivered (heap s' sid) = delivered (heap s sid)
          @ response_to (policy_decision cfg) (effective_domain sid req s) (GetBucketQuotaUsages req)
    else \<exists>s' e. handleMessage MemoryStorage_store sid req s = (s', Some e)"
proof -
  have l: "live sid s" using assms(1,2) by (simp add: live_def)
  have q: "quota_engine (ProcessUsage (engine s)) (policy_decision cfg)"
    using quota_engine_value by (simp add: assms(3))
  show ?thesis
  proof (cases "acceptable sid req s")
    case True
    then show ?thesis
      using memory.accepted_message [OF l True q assms(4)] by (simp only: if_True)
  next
    case False
    then show ?thesis using rejected_message [OF l False] by (simp only: if_False)
  qed
qed

definition policy_run :: "MemoryStorage RLQSServer" where
  "policy_run = example_open\<lparr>engine := Engine_value example_config\<rparr>"

lemma policy_run_inv: "server_inv policy_run" "streams policy_run = [0]"
proof -
  have "live (fst (open_stream example_grpc example_init)) example_open"
    unfolding example_open_def example_init_def by (rule live_open_stream [OF server_inv_NewRLQS])
  then have "server_inv example_open" by (simp add: live_def)
  then show "server_inv policy_run" by (simp add: policy_run_def)
  show "streams policy_run = [0]" by (simp add: policy_run_def example_streams)
qed

theorem handleMessage_accepts_witness:
  "(\<exists>s'. handleMessage MemoryStorage_store 0 example_message policy_run = (s', None)
      \<and> length (delivered (heap s' 0)) = 1)
   \<and> (\<exists>s' e. handleMessage MemoryStorage_store 0 (example_message\<lparr>GetDomain := []\<rparr>) policy_run = (s', Some e))"
proof -
  have sid: "0 \<in> set (streams policy_run)" and eng: "engine policy_run = Engine_value example_config"
    by (simp_all add: policy_run_inv(2)) (simp add: policy_run_def)
  have idle: "heap policy_run 0 = new_stream example_grpc"
    by (simp add: policy_run_def example_open_def open_stream_def Let_def upd_metrics_def example_init_def NewRLQS_def)
  have send: "Send (stream (heap policy_run 0)) h r = None" for h r
    by (simp add: idle new_stream_def example_grpc_def)
  note acc = handleMessage_accepts [OF policy_run_inv(1) sid eng send]
  have "acceptable 0 example_message policy_run" by code_simp
  moreover have "\<not> acceptable 0 (example_message\<lparr>GetDomain := []\<rparr>) policy_run"
    by (simp add: acceptable_def domain_ok_def idle new_stream_def)
  moreover have "length (delivered (heap policy_run 0)) = 0" by (simp add: idle new_stream_def)
  moreover have "length (response_to f d (GetBucketQuotaUsages example_message)) = 1" for f d
    by (simp add: response_to_def example_message_def example_usage_def example_bucket_def named_def has_bucket_def)
  ultimately show ?thesis
    using acc [of example_message] acc [of "example_message\<lparr>GetDomain := []\<rparr>"] by auto
qed

section \<open>The life of a stream\<close>

lemma stream_loop_returns:
  "\<exists>ev \<in> set evs. \<forall>req. ev \<noteq> Recv req \<Longrightarrow> \<exists>s' e. stream_loop ops sid evs s = (s', Returned e)"
  by (induction ops sid evs s rule: stream_loop.induct) (auto split: prod.split option.split)

lemma open_stream_frame:
  "fst (open_stream g s) = nextPtr s" "streams (snd (open_stream g s)) = streams s @ [nextPtr s]"
  "x \<noteq> nextPtr s \<Longrightarrow> heap (snd (open_stream g s)) x = heap s x"
  by (simp_all add: open_stream_def Let_def upd_metrics_def)

lemma close_stream_frame:
  "heap (close_stream ops sid s) = heap s" "streams (close_stream ops sid s) = remove1 sid (streams s)"
  "nextPtr (close_stream ops sid s) = nextPtr s"
  by (simp_all add: close_stream_def cleanupStream_def upd_metrics_def Let_def)

lemma server_inv_same_streams:
  assumes "server_inv s" and "server_inv s'" and "streams s' = streams s"
    and "\<And>sid. sid \<in> set (streams s) \<Longrightarrow> heap s' sid = heap s sid"
  shows "get_or 0 (bucketRefs s') k = get_or 0 (bucketRefs s) k" and "metrics_gauges s' = metrics_gauges s"
  using assms sum_list_cong_set [of "streams s" "\<lambda>sid. refs_of (heap s' sid) k" "\<lambda>sid. refs_of (heap s sid) k"]
    sum_list_cong_set [of "streams s" "\<lambda>sid. gauge_of (heap s' sid) _" "\<lambda>sid. gauge_of (heap s sid) _"]
  by (simp_all add: server_inv_def metrics_gauges_def fun_eq_iff)

text \<open>
  C12. An RPC whose client eventually disconnects always returns. Afterwards the server has the
  same registered streams, each of them untouched, and the same reference counts and gauges as
  before the RPC, whatever messages it carried and whatever error ended it.
\<close>

theorem StreamRateLimitQuotas_restores:
  assumes "server_inv s" and "\<exists>ev \<in> set evs. \<forall>req. ev \<noteq> Recv req"
  shows "\<exists>s' e. StreamRateLimitQuotas ops g evs s = (s', Returned e) \<and> server_inv s'
    \<and> streams s' = streams s \<and> (\<forall>sid \<in> set (streams s). heap s' sid = heap s sid)
    \<and> (\<forall>k. get_or 0 (bucketRefs s') k = get_or 0 (bucketRefs s) k) \<and> metrics_gauges s' = metrics_gauges s"
proof -
  let ?sid = "nextPtr s" and ?s1 = "snd (open_stream g s)"
  obtain s2 e where s2: "stream_loop ops ?sid evs ?s1 = (s2, Returned e)"
    using stream_loop_returns [OF assms(2)] by blast
  let ?s = "close_stream ops ?sid s2"
  have run: "StreamRateLimitQuotas ops g evs s = (?s, Returned e)"
    using s2 by (simp add: StreamRateLimitQuotas_def split_beta open_stream_frame)
  have "live ?sid ?s1" using live_open_stream [OF assms(1), of g] by (simp add: open_stream_frame)
  then have l2: "live ?sid s2" and k2: "keeps ?sid ?s1 s2"
    using live_stream_loop [of ?sid ?s1 ops evs] keeps_stream_loop [of ?sid ?s1 ops evs] s2 by simp_all
  have fresh: "?sid \<notin> set (streams s)" using assms(1) by (auto simp: server_inv_def)
  have st: "streams ?s = streams s"
    using k2 fresh by (simp add: close_stream_frame keeps_def open_stream_frame remove1_append)
  have hp: "heap ?s sid = heap s sid" if "sid \<in> set (streams s)" for sid
    using k2 fresh that by (metis close_stream_frame(1) keeps_def open_stream_frame(3))
  have inv: "server_inv ?s" using server_inv_close_stream [OF l2] .
  show ?thesis
    using run inv st hp server_inv_same_streams [OF assms(1) inv st hp] by blast
qed

theorem StreamRateLimitQuotas_restores_witness:
  "\<exists>s' e. StreamRateLimitQuotas MemoryStorage_store example_grpc [Recv example_message, RecvEOF] example_run
      = (s', Returned e) \<and> streams s' = [0] \<and> server_inv s'"
  using StreamRateLimitQuotas_restores [of example_run "[Recv example_message, RecvEOF]" MemoryStorage_store example_grpc]
  by (auto simp: example_run_inv example_streams)

lemma push_stream_kept:
  "nextPtr (push_stream e sid' s) = nextPtr s" "streams (push_stream e sid' s) = streams s"
  "engineTimeout (push_stream e sid' s) = engineTimeout s" "engine (push_stream e sid' s) = engine s"
  "pushes (push_stream e sid' s) = pushes s"
  "domainBound (heap (push_stream e sid' s) sid) = domainBound (heap s sid)"
  "domain (heap (push_stream e sid' s) sid) = domain (heap s sid)"
  "metricDomain (heap (push_stream e sid' s) sid) = metricDomain (heap s sid)"
  "subscriptions (heap (push_stream e sid' s) sid) = subscriptions (heap s sid)"
  "stream (heap (push_stream e sid' s) sid) = stream (heap s sid)"
  by (simp_all add: push_stream_def Let_def send_response_def upd_stream_def add_assignments_def
      upd_metrics_def split: sum.split option.split)

lemma push_fold_kept [simp]:
  "nextPtr (fold (push_stream e) sids s) = nextPtr s" "streams (fold (push_stream e) sids s) = streams s"
  "engineTimeout (fold (push_stream e) sids s) = engineTimeout s" "engine (fold (push_stream e) sids s) = engine s"
  "pushes (fold (push_stream e) sids s) = pushes s"
  "domainBound (heap (fold (push_stream e) sids s) sid) = domainBound (heap s sid)"
  "domain (heap (fold (push_stream e) sids s) sid) = domain (heap s sid)"
  "metricDomain (heap (fold (push_stream e) sids s) sid) = metricDomain (heap s sid)"
  "subscriptions (heap (fold (push_stream e) sids s) sid) = subscriptions (heap s sid)"
  "stream (heap (fold (push_stream e) sids s) sid) = stream (heap s sid)"
  by (induction sids arbitrary: s) (simp_all add: push_stream_kept)

lemma bound_stream_step:
  assumes "server_step ops s s'" and "sid < nextPtr s" and "domainBound (heap s sid)"
  shows "sid < nextPtr s' \<and> domainBound (heap s' sid) \<and> domain (heap s' sid) = domain (heap s sid)
    \<and> metricDomain (heap s' sid) = metricDomain (heap s sid)"
proof -
  have kept: ?thesis if "keeps sid' s t" "heap s' = heap t" "nextPtr s' = nextPtr t" for t sid'
    using that assms(2,3) by (cases "sid' = sid") (simp_all add: keeps_def)
  show ?thesis
    using assms(1)
  proof cases
    case (step_message sid' req)
    then show ?thesis using kept [of sid' s'] keeps_handleMessage [of sid' s ops req] by simp
  next
    case (step_failure sid' req t e)
    then show ?thesis using kept [of sid' t] keeps_handleMessage [of sid' s ops req] by (simp add: close_stream_frame)
  qed (use assms in \<open>auto simp: open_stream_def Let_def upd_metrics_def close_stream_frame SwapEngine_def
        engine_Store_def run_push_def pushAssignments_def SwapDomainClassifier_def split: if_splits\<close>)
qed

lemma bound_stream_reachable:
  assumes "reachable ops s s'" and "sid < nextPtr s" and "domainBound (heap s sid)"
  shows "sid < nextPtr s' \<and> domainBound (heap s' sid) \<and> domain (heap s' sid) = domain (heap s sid)
    \<and> metricDomain (heap s' sid) = metricDomain (heap s sid)"
  using assms(1)
proof induction
  case reach_init
  then show ?case using assms(2,3) by simp
next
  case (reach_step t t')
  then show ?case using bound_stream_step [OF reach_step(2), of sid] by simp
qed

text \<open>
  C27. Once a registered stream is bound, its domain and its metric label stay what they are
  through every later step of the server, hot swaps of engine and classifier included.
\<close>

theorem bound_domain_is_final:
  assumes "server_inv s" and "sid \<in> set (streams s)" and "domainBound (heap s sid)"
    and "reachable ops s s'"
  shows "domain (heap s' sid) = domain (heap s sid) \<and> metricDomain (heap s' sid) = metricDomain (heap s sid)"
proof -
  have "sid < nextPtr s" using assms(1,2) by (simp add: server_inv_def)
  then show ?thesis using bound_stream_reachable [OF assms(4)] assms(3) by blast
qed

theorem bound_domain_is_final_witness:
  "domain (heap (SwapDomainClassifier (domainClassifier example_init) example_run) 0) = ''d''"
proof -
  let ?s = "SwapDomainClassifier (domainClassifier example_init) example_run"
  have "reachable MemoryStorage_store example_run ?s" by (rule reach_step [OF reach_init step_classifier])
  moreover have "domainBound (heap example_run 0)" "domain (heap example_run 0) = ''d''" by code_simp+
  ultimately show ?thesis
    using bound_domain_is_final [OF example_run_inv, of 0 MemoryStorage_store ?s] by (simp add: example_streams)
qed

section \<open>Engine swaps\<close>

definition push_response :: "(string \<Rightarrow> BucketKey \<Rightarrow> QuotaAssignmentAction) \<Rightarrow> streamState \<Rightarrow> RateLimitQuotaResponse" where
  "push_response decide ss =
     \<lparr>GetBucketAction = map (\<lambda>(key, bid). \<lparr>ActionBucketId = Some bid,
        ActionKind = QuotaAssignment (decide (domain ss) key)\<rparr>) (subscriptions ss)\<rparr>"

lemma push_stream_delivers:
  assumes "quota_engine (ProcessUsage e) decide" and "stream_ok s (heap s sid)"
    and "subscriptions (heap s sid) \<noteq> []" and "\<And>h r. Send (stream (heap s sid)) h r = None"
  shows "delivered (heap (push_stream e sid s) sid) =
    delivered (heap s sid) @ [push_response decide (heap s sid)]"
proof -
  let ?ss = "heap s sid"
  have bound: "domainBound ?ss" using assms(2,3) by (auto simp: stream_ok_def)
  have canon: "key = BucketKeyFromProto (Some bid) \<and> has_bucket (Some bid)" if "(key, bid) \<in> set (subscriptions ?ss)" for key bid
    using assms(2) that by (auto simp: stream_ok_def has_bucket_def)
  have "filter has_bucket (map (\<lambda>x. Some (snd x)) (subscriptions ?ss)) = map (\<lambda>x. Some (snd x)) (subscriptions ?ss)"
    using canon by (intro filter_True) auto
  then have "ProcessUsage e ctx (domain ?ss) (push_reports ?ss) = Inr (GetBucketAction (push_response decide ?ss))" for ctx
    using canon by (auto simp: quota_engine.ProcessUsage_by_id [OF assms(1)] push_reports_def push_response_def
        split_beta comp_def)
  moreover have "GetBucketAction (push_response decide ?ss) \<noteq> []" using assms(3) by (simp add: push_response_def)
  ultimately show ?thesis
    using bound assms(3,4) by (simp add: push_stream_def Let_def send_response_def upd_stream_def)
qed

lemma push_stream_other: "sid' \<noteq> sid \<Longrightarrow> heap (push_stream e sid' s) sid = heap s sid"
  using keeps_push_stream [of sid' s e] by (simp add: keeps_def)

lemma push_stream_local:
  assumes "heap t sid = heap s sid" and "engineTimeout t = engineTimeout s"
  shows "heap (push_stream e sid t) sid = heap (push_stream e sid s) sid"
  using assms by (simp add: push_stream_def Let_def engine_ctx_def send_response_def upd_stream_def
      split: sum.split option.split)

lemma push_fold_at:
  assumes "distinct sids"
  shows "heap (fold (push_stream e) sids s) sid = (if sid \<in> set sids then heap (push_stream e sid s) sid else heap s sid)"
  using assms
proof (induction sids arbitrary: s)
  case (Cons x xs)
  then show ?case
    using push_stream_local [of "push_stream e x s" sid s e]
    by (cases "x = sid") (auto simp: push_stream_other push_stream_kept)
qed simp

lemma run_push_at:
  assumes "server_inv s" and "sid \<in> set (streams s)" and "quota_engine (ProcessUsage (pushes s ! i)) decide"
    and "subscriptions (heap s sid) \<noteq> []" and "\<And>h r. Send (stream (heap s sid)) h r = None"
  shows "delivered (heap (run_push i s) sid) =
    delivered (heap s sid) @ [push_response decide (heap s sid)]"
proof -
  let ?t = "s\<lparr>pushes := take i (pushes s) @ drop (Suc i) (pushes s)\<rparr>"
  have "live sid ?t" using assms(1,2) by (simp add: live_def)
  then have ok: "stream_ok ?t (heap ?t sid)" by (rule live_stream_ok)
  have dist: "distinct (streams s)" using assms(1) by (simp add: server_inv_def)
  have "heap (run_push i s) sid = heap (push_stream (pushes s ! i) sid ?t) sid"
    using assms(2) by (simp add: run_push_def pushAssignments_def push_fold_at [OF dist])
  then show ?thesis
    using push_stream_delivers [OF assms(3) ok] assms(4,5) by simp
qed

lemma run_push_kept:
  "subscriptions (heap (run_push i s) sid) = subscriptions (heap s sid)"
  "domain (heap (run_push i s) sid) = domain (heap s sid)"
  "stream (heap (run_push i s) sid) = stream (heap s sid)"
  "streams (run_push i s) = streams s" "engine (run_push i s) = engine s"
  "pushes (run_push i s) = take i (pushes s) @ drop (Suc i) (pushes s)"
  by (simp_all add: run_push_def pushAssignments_def)

text \<open>
  C13. When a new policy engine is swapped in and its push runs, every registered stream that
  has subscriptions and accepts a send receives exactly one more response, with the new
  engine's assignment for each of its subscribed buckets, whatever happens to the sends on
  other streams; the new engine also serves all later messages.
\<close>

theorem SwapEngine_pushes_fresh_assignments:
  assumes "server_inv s" and "pushes s = []"
    and "SwapEngine (Engine_value cfg) s = Inr s'"
    and "sid \<in> set (streams s)" and "subscriptions (heap s sid) \<noteq> []"
    and "\<And>h r. Send (stream (heap s sid)) h r = None"
  shows "delivered (heap (run_push 0 s') sid) =
      delivered (heap s sid) @ [push_response (policy_decision cfg) (heap s sid)]
    \<and> engine (run_push 0 s') = Engine_value cfg \<and> pushes (run_push 0 s') = []"
proof -
  have s': "s' = s\<lparr>engine := Engine_value cfg, pushes := [Engine_value cfg]\<rparr>"
    using assms(2,3) by (auto simp: SwapEngine_def engine_Store_def split: if_splits)
  have "server_inv s'" using assms(1) by (simp add: s')
  then show ?thesis
    using run_push_at [of s' sid 0 "policy_decision cfg"] assms by (simp add: s' run_push_kept quota_engine_value)
qed

definition policy_bound :: "MemoryStorage RLQSServer" where
  "policy_bound = example_run\<lparr>engine := Engine_value example_config\<rparr>"

lemma policy_bound_facts:
  "server_inv policy_bound" "streams policy_bound = [0]" "pushes policy_bound = []"
  "subscriptions (heap policy_bound 0) \<noteq> []" "Send (stream (heap policy_bound 0)) h r = None"
proof -
  show "server_inv policy_bound" "streams policy_bound = [0]"
    by (simp_all add: policy_bound_def example_run_inv example_streams)
  have "length (pushes policy_bound) = 0" "length (subscriptions (heap policy_bound 0)) = 1" by code_simp+
  then show "pushes policy_bound = []" "subscriptions (heap policy_bound 0) \<noteq> []" by auto
  have "stream (heap policy_bound 0) = stream (heap example_open 0)"
    using keeps_handleMessage [of 0 example_open MemoryStorage_store example_message]
    by (simp add: policy_bound_def keeps_def example_run_def)
  then show "Send (stream (heap policy_bound 0)) h r = None"
    by (simp add: example_open_def open_stream_def Let_def upd_metrics_def new_stream_def example_init_def
        NewRLQS_def example_grpc_def)
qed

theorem SwapEngine_pushes_fresh_assignments_witness:
  "\<exists>s'. SwapEngine (Engine_value example_config) policy_bound = Inr s'
    \<and> length (delivered (heap (run_push 0 s') 0)) = Suc (length (delivered (heap policy_bound 0)))"
proof -
  obtain s' where s': "SwapEngine (Engine_value example_config) policy_bound = Inr s'"
    by (simp add: SwapEngine_def engine_Store_def policy_bound_def Engine_value_def)
  then show ?thesis
    using SwapEngine_pushes_fresh_assignments [OF policy_bound_facts(1,3) s', of 0] policy_bound_facts by simp
qed

text \<open>
  Two swaps in quick succession start two push goroutines that nothing orders. When the
  second push runs first, the last response a subscribed stream receives carries the
  assignments of the replaced engine although the newer engine is installed.
\<close>

theorem pushes_out_of_order_leave_stale_assignments:
  assumes "server_inv s" and "pushes s = []"
    and "SwapEngine (Engine_value old) s = Inr s1" and "SwapEngine (Engine_value new) s1 = Inr s2"
    and "sid \<in> set (streams s)" and "subscriptions (heap s sid) \<noteq> []"
    and "\<And>h r. Send (stream (heap s sid)) h r = None"
  shows "last (delivered (heap (run_push 0 (run_push 1 s2)) sid)) = push_response (policy_decision old) (heap s sid)
    \<and> engine (run_push 0 (run_push 1 s2)) = Engine_value new"
proof -
  have s2: "s2 = s\<lparr>engine := Engine_value new, pushes := [Engine_value old, Engine_value new]\<rparr>"
    using assms(2-4) by (auto simp: SwapEngine_def engine_Store_def split: if_splits)
  let ?t = "run_push 1 s2"
  have inv: "server_inv ?t" using assms(1) by (intro server_inv_run_push) (simp add: s2)
  have resp: "push_response f (heap ?t sid) = push_response f (heap s sid)" for f
    by (simp add: push_response_def run_push_kept s2)
  have "delivered (heap (run_push 0 ?t) sid) = delivered (heap ?t sid) @ [push_response (policy_decision old) (heap ?t sid)]"
    using assms(5-7) by (intro run_push_at [OF inv]) (simp_all add: run_push_kept s2 quota_engine_value)
  then have "last (delivered (heap (run_push 0 ?t) sid)) = push_response (policy_decision old) (heap s sid)"
    unfolding resp by simp
  moreover have "engine (run_push 0 ?t) = Engine_value new" by (simp add: run_push_kept s2)
  ultimately show ?thesis by (rule conjI)
qed

theorem pushes_out_of_order_leave_stale_assignments_witness:
  "\<exists>s1 s2. SwapEngine (Engine_value example_config) policy_bound = Inr s1
    \<and> SwapEngine (Engine_value (example_config\<lparr>Policies := []\<rparr>)) s1 = Inr s2
    \<and> last (delivered (heap (run_push 0 (run_push 1 s2)) 0)) =
        push_response (policy_decision example_config) (heap policy_bound 0)"
proof -
  obtain s1 s2 where s12: "SwapEngine (Engine_value example_config) policy_bound = Inr s1"
      "SwapEngine (Engine_value (example_config\<lparr>Policies := []\<rparr>)) s1 = Inr s2"
    by (simp add: SwapEngine_def engine_Store_def policy_bound_def Engine_value_def)
  then show ?thesis
    using pushes_out_of_order_leave_stale_assignments [OF policy_bound_facts(1,3) s12, of 0] policy_bound_facts by simp
qed

section \<open>Keys that collide\<close>

text \<open>
  The separators of the key encoding are not rejected by validation: under the default
  limits the bucket with the single entry \<open>a = "b\x1ec\x00d"\<close> and the bucket with entries
  \<open>a = "b"\<close>, \<open>c = "d"\<close> are both valid, differ, and share one key, so the server keeps one
  subscription and one usage record for both.
\<close>

theorem valid_buckets_may_collide:
  "\<exists>a b. wf_map (Bucket a) \<and> wf_map (Bucket b) \<and> map_of (Bucket a) \<noteq> map_of (Bucket b)
     \<and> validate_bucket example_init (Bucket a) = None \<and> validate_bucket example_init (Bucket b) = None
     \<and> BucketKeyFromProto (Some a) = BucketKeyFromProto (Some b)"
proof (intro exI conjI)
  let ?a = "\<lparr>Bucket = [(''a'', ''b'' @ [CHR 0x1E] @ ''c'' @ [CHR 0x00] @ ''d'')]\<rparr>"
  let ?b = "\<lparr>Bucket = [(''a'', ''b''), (''c'', ''d'')]\<rparr>"
  have "map_of (Bucket ?a) ''c'' \<noteq> map_of (Bucket ?b) ''c''" by simp
  then show "map_of (Bucket ?a) \<noteq> map_of (Bucket ?b)" by metis
  show "BucketKeyFromProto (Some ?a) = BucketKeyFromProto (Some ?b)"
    by (simp add: BucketKeyFromProto_def get_or_def sort_key_def)
qed (simp_all add: validate_bucket_def example_init_def NewRLQS_def default_config_def)

end
