(* ===== verification/Admin.thy ===== *)
theory Admin
  imports Server_Behaviour
begin

text \<open>
  The admin and debug HTTP endpoints (\<open>src/internal/admin/admin.go\<close>): routing, health answers,
  the stream and bucket listings with the domain filter, and the configuration view with the
  changes that wait for a restart. A response is its status, content type and the value handed
  to the JSON encoder. A store supports listing when it has an \<open>All\<close> method, which is an
  optional function here.
\<close>

section \<open>Handlers\<close>

record bucketEntry =
  EntryKey :: string
  EntryAllowed :: uint64
  EntryDenied :: uint64

datatype http_body =
    StatusBody string
  | StreamsBody "StreamInfo list"
  | BucketsBody "bucketEntry list"
  | ConfigBody Config "Change list"
  | ErrorBody string

record http_response =
  StatusCode :: nat
  ContentType :: string
  Body :: http_body

record Handler =
  HandlerCfg :: Config
  pendingRestartChanges :: "Change list"

definition admin_New :: "Config \<Rightarrow> Handler" where
  "admin_New cfg = \<lparr>HandlerCfg = cfg, pendingRestartChanges = []\<rparr>"

definition json_response :: "http_body \<Rightarrow> http_response" where
  "json_response b = \<lparr>StatusCode = 200, ContentType = ''application/json'', Body = b\<rparr>"

definition handleHealthz :: http_response where
  "handleHealthz = json_response (StatusBody ''ok'')"

definition handleReadyz :: http_response where
  "handleReadyz = json_response (StatusBody ''ready'')"

definition handleDebugStreams :: "'st RLQSServer \<Rightarrow> http_response" where
  "handleDebugStreams s = json_response (StreamsBody (StreamStats s))"

text \<open>One iteration of the loop over the listed buckets: the entry, unless the filter skips it.\<close>

definition bucket_entry :: "string \<Rightarrow> BucketKey \<times> UsageState \<Rightarrow> bucketEntry option" where
  "bucket_entry d kv =
     (let keyStr = fst kv; v = snd kv;
          entry = (\<lambda>key. \<lparr>EntryKey = key, EntryAllowed = Allowed v, EntryDenied = Denied v\<rparr>)
      in if d \<noteq> [] then
           (let prefix = d @ [CHR 0x1F]
            in if length keyStr \<le> length prefix \<or> take (length prefix) keyStr \<noteq> prefix then None
               else Some (entry (drop (length prefix) keyStr)))
         else Some (entry keyStr))"

definition handleDebugBuckets ::
  "('st \<Rightarrow> (BucketKey, UsageState) gomap) option \<Rightarrow> string \<Rightarrow> 'st \<Rightarrow> http_response" where
  "handleDebugBuckets lister d st =
     (case lister of
        None \<Rightarrow> \<lparr>StatusCode = 501, ContentType = ''text/plain; charset=utf-8'',
                 Body = ErrorBody ''{\"error\":\"bucket listing not supported by storage backend\"}''\<rparr>
      | Some all \<Rightarrow> json_response (BucketsBody (List.map_filter (bucket_entry d) (all st))))"

definition SetPendingRestartChanges :: "Change list \<Rightarrow> Handler \<Rightarrow> Handler" where
  "SetPendingRestartChanges changes h = h\<lparr>pendingRestartChanges := changes\<rparr>"

definition handleDebugConfig :: "Handler \<Rightarrow> http_response" where
  "handleDebugConfig h = json_response (ConfigBody (HandlerCfg h) (pendingRestartChanges h))"

text \<open>The routes \<open>Register\<close> adds; other paths are not handled here.\<close>

definition serve ::
  "('st \<Rightarrow> (BucketKey, UsageState) gomap) option \<Rightarrow> Handler \<Rightarrow> 'st RLQSServer \<Rightarrow> string \<Rightarrow> string
    \<Rightarrow> http_response option" where
  "serve lister h s path d =
     (if path = ''/healthz'' then Some handleHealthz
      else if path = ''/readyz'' then Some handleReadyz
      else if path = ''/debug/streams'' then Some (handleDebugStreams s)
      else if path = ''/debug/buckets'' then Some (handleDebugBuckets lister d (store s))
      else if path = ''/debug/config'' then Some (handleDebugConfig h)
      else None)"

section \<open>The bucket listing\<close>

lemma bucket_entry_domain:
  assumes "d \<noteq> []"
  shows "bucket_entry d (k, v) = Some e \<longleftrightarrow>
    (\<exists>key. key \<noteq> [] \<and> k = DomainScopedKey d key
      \<and> e = \<lparr>EntryKey = key, EntryAllowed = Allowed v, EntryDenied = Denied v\<rparr>)"
proof -
  let ?p = "d @ [CHR 0x1F]"
  have "\<not> (length k \<le> length ?p \<or> take (length ?p) k \<noteq> ?p) \<longleftrightarrow> (\<exists>key. key \<noteq> [] \<and> k = ?p @ key)"
  proof
    assume r: "\<not> (length k \<le> length ?p \<or> take (length ?p) k \<noteq> ?p)"
    then have "k = ?p @ drop (length ?p) k" by (metis append_take_drop_id)
    moreover have "drop (length ?p) k \<noteq> []" using r by simp
    ultimately show "\<exists>key. key \<noteq> [] \<and> k = ?p @ key" by blast
  qed auto
  then show ?thesis
    using assms by (auto simp: bucket_entry_def Let_def DomainScopedKey_def)
qed

lemma usage_key_nonempty: "Bucket b \<noteq> [] \<Longrightarrow> BucketKeyFromProto (Some b) \<noteq> []"
  by (cases "sort (keys (Bucket b))") (auto simp: BucketKeyFromProto_def Let_def sort_Nil_iff)

lemma usage_state_eq: "Allowed v = a \<and> Denied v = n \<longleftrightarrow> v = \<lparr>Allowed = a, Denied = n\<rparr>" for v :: UsageState
  by (cases v) auto

lemma listed_entries:
  fixes e :: bucketEntry
  assumes "MemoryStorage_wf st" and "d \<noteq> []"
  shows "e \<in> set (List.map_filter (bucket_entry d) (MemoryStorage_All st)) \<longleftrightarrow>
    EntryKey e \<noteq> [] \<and> memory_usage st (DomainScopedKey d (EntryKey e)) =
      Some \<lparr>Allowed = EntryAllowed e, Denied = EntryDenied e\<rparr>"
proof -
  have "e \<in> set (List.map_filter (bucket_entry d) (MemoryStorage_All st)) \<longleftrightarrow>
      (\<exists>k v. (k, v) \<in> set (buckets st) \<and> bucket_entry d (k, v) = Some e)"
    using assms(1) by (force simp: List.map_filter_def)
  also have "\<dots> \<longleftrightarrow> (\<exists>v. EntryKey e \<noteq> [] \<and> (DomainScopedKey d (EntryKey e), v) \<in> set (buckets st)
      \<and> Allowed v = EntryAllowed e \<and> Denied v = EntryDenied e)"
    unfolding bucket_entry_domain [OF assms(2)] by (cases e) auto
  also have "\<dots> \<longleftrightarrow> EntryKey e \<noteq> [] \<and> memory_usage st (DomainScopedKey d (EntryKey e)) =
      Some \<lparr>Allowed = EntryAllowed e, Denied = EntryDenied e\<rparr>"
    using assms(1) by (simp add: memory_usage_def map_of_wf_Some MemoryStorage_wf_def usage_state_eq)
  finally show ?thesis .
qed

lemma listed_keys:
  assumes "MemoryStorage_wf st" and "d \<noteq> []"
  shows "key \<in> EntryKey ` set (List.map_filter (bucket_entry d) (MemoryStorage_All st)) \<longleftrightarrow>
    key \<noteq> [] \<and> memory_usage st (DomainScopedKey d key) \<noteq> None"
proof
  assume "key \<in> EntryKey ` set (List.map_filter (bucket_entry d) (MemoryStorage_All st))"
  then show "key \<noteq> [] \<and> memory_usage st (DomainScopedKey d key) \<noteq> None"
    by (auto simp: listed_entries [OF assms])
next
  assume r: "key \<noteq> [] \<and> memory_usage st (DomainScopedKey d key) \<noteq> None"
  then obtain v where v: "memory_usage st (DomainScopedKey d key) = Some v" by blast
  have "\<lparr>EntryKey = key, EntryAllowed = Allowed v, EntryDenied = Denied v\<rparr>
      \<in> set (List.map_filter (bucket_entry d) (MemoryStorage_All st))"
    using r v by (simp add: listed_entries [OF assms])
  then show "key \<in> EntryKey ` set (List.map_filter (bucket_entry d) (MemoryStorage_All st))"
    by (rule rev_image_eqI) simp
qed

lemma subscribed_scoped_key:
  assumes "server_inv s" and "sid \<in> set (streams s)" and "key \<in> set (keys (subscriptions (heap s sid)))"
    and "CHR 0x1F \<notin> set d" and "CHR 0x1F \<notin> set (domain (heap s sid))" and "d \<noteq> []"
  shows "key \<noteq> []" and "DomainScopedKey (domain (heap s sid)) key = DomainScopedKey d k \<longleftrightarrow> domain (heap s sid) = d \<and> key = k"
proof -
  have ok: "stream_ok s (heap s sid)" using assms(1,2) by (simp add: server_inv_def)
  obtain bid where "(key, bid) \<in> set (subscriptions (heap s sid))" using assms(3) by auto
  then have "key = BucketKeyFromProto (Some bid)" "Bucket bid \<noteq> []" using ok by (auto simp: stream_ok_def)
  then show "key \<noteq> []" using usage_key_nonempty by simp
  have "domain (heap s sid) \<noteq> []" using ok assms(3) by (auto simp: stream_ok_def)
  then show "DomainScopedKey (domain (heap s sid)) key = DomainScopedKey d k \<longleftrightarrow> domain (heap s sid) = d \<and> key = k"
    using assms(4-6) by (simp add: DomainScopedKey_def append_sep_inject)
qed

lemma scoped_subscriptions:
  assumes "server_inv s" and "d \<noteq> []" and "CHR 0x1F \<notin> set d"
    and "\<forall>sid \<in> set (streams s). CHR 0x1F \<notin> set (domain (heap s sid))"
  shows "(key \<noteq> [] \<and> (\<exists>sid \<in> set (streams s). \<exists>k \<in> set (keys (subscriptions (heap s sid))).
        DomainScopedKey (domain (heap s sid)) k = DomainScopedKey d key)) \<longleftrightarrow>
      key \<in> (\<Union>sid \<in> {sid \<in> set (streams s). domain (heap s sid) = d}. subscribed sid s)"
    (is "?L \<longleftrightarrow> ?R")
proof
  assume ?L
  then obtain sid k where m: "sid \<in> set (streams s)" "k \<in> set (keys (subscriptions (heap s sid)))"
      "DomainScopedKey (domain (heap s sid)) k = DomainScopedKey d key" by blast
  then have "domain (heap s sid) = d \<and> k = key"
    using subscribed_scoped_key(2) [OF assms(1) m(1,2) assms(3) _ assms(2)] assms(4) by simp
  then show ?R using m(1,2) by (auto simp: subscribed_def)
next
  assume ?R
  then obtain sid where m: "sid \<in> set (streams s)" "domain (heap s sid) = d" "key \<in> set (keys (subscriptions (heap s sid)))"
    by (auto simp: subscribed_def)
  then have "key \<noteq> []"
    using subscribed_scoped_key(1) [OF assms(1) m(1,3) assms(3) _ assms(2)] assms(3) by simp
  then show ?L using m by blast
qed



end
