(* ===== verification/Lifecycle.thy ===== *)
theory Lifecycle
  imports Server_Behaviour
begin

text \<open>
  Around the protocol server (\<open>src/internal/server/server.go\<close>, \<open>src/cmd/rlqs-server/main.go\<close>): the
  stream interceptors, the server options, TLS credentials, the wrapper with its health
  statuses, and the timed shutdown. gRPC, the certificate loader and the third-party Prometheus
  interceptor are parameters.
\<close>

section \<open>Interceptors\<close>

text \<open>A stream handler ends with its error or with a panic.\<close>

datatype handler_end = HandlerReturn "rpc_error option" | HandlerPanic go_panic

type_synonym 's stream_handler = "'s \<Rightarrow> 's \<times> handler_end"

definition recoveryStreamInterceptor :: "'s stream_handler \<Rightarrow> 's stream_handler" where
  "recoveryStreamInterceptor handler s =
     (case handler s of
        (s', HandlerPanic r) \<Rightarrow> (s', HandlerReturn (Some (Status Internal (PanicRecovered r))))
      | (s', HandlerReturn err) \<Rightarrow> (s', HandlerReturn err))"

definition loggingStreamInterceptor :: "'s stream_handler \<Rightarrow> 's stream_handler" where
  "loggingStreamInterceptor handler s = (case handler s of (s', e) \<Rightarrow> (s', e))"

section \<open>Options and credentials\<close>

record keepalive_params =
  MaxConnectionIdle :: duration
  KeepaliveTime :: duration
  KeepaliveTimeout :: duration
  MinTime :: duration
  PermitWithoutStream :: bool

record tls_config =
  Certificates :: "string list"
  MinVersionTLS12 :: bool
  ClientCAs :: "string list option"
  RequireAndVerifyClientCert :: bool

record 's server_options =
  OptMaxConcurrentStreams :: uint32
  OptKeepalive :: keepalive_params
  StreamInterceptors :: "('s stream_handler \<Rightarrow> 's stream_handler) list"
  Creds :: "tls_config option"

definition DefaultServerOptions ::
  "('s stream_handler \<Rightarrow> 's stream_handler) \<Rightarrow> ServerConfig \<Rightarrow> 's server_options" where
  "DefaultServerOptions prometheus cfg =
     \<lparr>OptMaxConcurrentStreams = MaxConcurrentStreams cfg,
      OptKeepalive = \<lparr>MaxConnectionIdle = KeepaliveMaxIdleTime cfg, KeepaliveTime = KeepalivePingInterval cfg,
        KeepaliveTimeout = KeepalivePingTimeout cfg, MinTime = 30 * Second, PermitWithoutStream = True\<rparr>,
      StreamInterceptors = [prometheus, loggingStreamInterceptor, recoveryStreamInterceptor],
      Creds = None\<rparr>"

text \<open>\<open>grpc.ChainStreamInterceptor\<close>: the first interceptor is the outermost one.\<close>

definition chain :: "('s stream_handler \<Rightarrow> 's stream_handler) list \<Rightarrow> 's stream_handler \<Rightarrow> 's stream_handler" where
  "chain is h = foldr (\<lambda>i h. i h) is h"

record tls_env =
  LoadX509KeyPair :: "string \<Rightarrow> string \<Rightarrow> go_error + string"
  ReadCAFile :: "string \<Rightarrow> go_error + string"
  CertsFromPEM :: "string \<Rightarrow> string list"

datatype tls_error = LoadingServerCertificate go_error | ReadingCAFile go_error | NoValidCertificates

definition TLSOption :: "tls_env \<Rightarrow> TLSConfig \<Rightarrow> tls_error + tls_config" where
  "TLSOption env c =
     (case LoadX509KeyPair env (CertFile c) (KeyFile c) of
        Inl e \<Rightarrow> Inl (LoadingServerCertificate e)
      | Inr cert \<Rightarrow>
          (let tc = \<lparr>Certificates = [cert], MinVersionTLS12 = True, ClientCAs = None, RequireAndVerifyClientCert = False\<rparr>
           in if CAFile c \<noteq> [] then
                (case ReadCAFile env (CAFile c) of
                   Inl e \<Rightarrow> Inl (ReadingCAFile e)
                 | Inr pem \<Rightarrow>
                     (let pool = CertsFromPEM env pem
                      in if pool = [] then Inl NoValidCertificates
                         else Inr (tc\<lparr>ClientCAs := Some pool, RequireAndVerifyClientCert := True\<rparr>)))
              else Inr tc))"

text \<open>The options \<open>main\<close> passes to \<open>server.New\<close>; an error ends the process.\<close>

definition main_options ::
  "tls_env \<Rightarrow> ('s stream_handler \<Rightarrow> 's stream_handler) \<Rightarrow> Config \<Rightarrow> tls_error + 's server_options" where
  "main_options env prometheus cfg =
     (let opts = DefaultServerOptions prometheus (ServerOf cfg)
      in if CertFile (TLS (ServerOf cfg)) \<noteq> []
         then (case TLSOption env (TLS (ServerOf cfg)) of
                 Inl e \<Rightarrow> Inl e
               | Inr tc \<Rightarrow> Inr (opts\<lparr>Creds := Some tc\<rparr>))
         else Inr opts)"

section \<open>Health and shutdown\<close>

definition serviceName :: string where
  "serviceName = ''envoy.service.rate_limit_quota.v3.RateLimitQuotaService''"

datatype serving_status = SERVING | NOT_SERVING

datatype grpc_phase = GrpcCreated | GrpcServing | GrpcStoppedGracefully | GrpcStopped

text \<open>A \<open>grpc.Server\<close> is what it was built with, the services registered with it, and its phase.\<close>

record 'st grpc_server =
  grpcOptions :: "'st RLQSServer server_options"
  services :: "string list"
  phase :: grpc_phase

record 'st Server =
  grpcServer :: "'st grpc_server"
  healthServer :: "string \<rightharpoonup> serving_status"
  rlqsServer :: "'st RLQSServer"

definition healthService :: string where
  "healthService = ''grpc.health.v1.Health''"

text \<open>The health library registers the empty service as serving when it is created.\<close>

definition server_New ::
  "regexp_Compile \<Rightarrow> 'st \<Rightarrow> Engine \<Rightarrow> ServerConfig \<Rightarrow> DomainClassifier option \<Rightarrow> 'st RLQSServer server_options \<Rightarrow> 'st Server" where
  "server_New compile st eng cfg classifier opts =
     \<lparr>grpcServer = \<lparr>grpcOptions = opts, services = [serviceName, healthService], phase = GrpcCreated\<rparr>,
      healthServer = [[] \<mapsto> SERVING],
      rlqsServer = NewRLQS compile st eng cfg classifier\<rparr>"

text \<open>\<open>Register\<close> adds a server with the default classifier to a given \<open>grpc.Server\<close>.\<close>

definition Register ::
  "regexp_Compile \<Rightarrow> 'st grpc_server \<Rightarrow> 'st \<Rightarrow> Engine \<Rightarrow> ServerConfig \<Rightarrow> 'st grpc_server \<times> 'st RLQSServer" where
  "Register compile g st eng cfg = (g\<lparr>services := services g @ [serviceName]\<rparr>, NewRLQS compile st eng cfg None)"

definition Server_SwapEngine :: "Engine \<Rightarrow> 'st Server \<Rightarrow> go_panic + 'st Server" where
  "Server_SwapEngine e s =
     (case SwapEngine e (rlqsServer s) of Inl p \<Rightarrow> Inl p | Inr r \<Rightarrow> Inr (s\<lparr>rlqsServer := r\<rparr>))"

definition Server_SwapDomainClassifier :: "DomainClassifier \<Rightarrow> 'st Server \<Rightarrow> 'st Server" where
  "Server_SwapDomainClassifier c s = s\<lparr>rlqsServer := SwapDomainClassifier c (rlqsServer s)\<rparr>"

definition Server_StreamStats :: "'st Server \<Rightarrow> StreamInfo list" where
  "Server_StreamStats s = StreamStats (rlqsServer s)"

definition GRPCServer :: "'st Server \<Rightarrow> 'st grpc_server" where
  "GRPCServer s = grpcServer s"

definition set_phase :: "grpc_phase \<Rightarrow> 'st Server \<Rightarrow> 'st Server" where
  "set_phase ph s = s\<lparr>grpcServer := (grpcServer s)\<lparr>phase := ph\<rparr>\<rparr>"

definition SetServingStatus :: "string \<Rightarrow> serving_status \<Rightarrow> 'st Server \<Rightarrow> 'st Server" where
  "SetServingStatus service st s = s\<lparr>healthServer := (healthServer s)(service \<mapsto> st)\<rparr>"

definition Serve :: "'st Server \<Rightarrow> 'st Server" where
  "Serve s = set_phase GrpcServing (SetServingStatus serviceName SERVING (SetServingStatus [] SERVING s))"

text \<open>The statuses \<open>GracefulStop\<close> sets before it waits for the streams to end.\<close>

definition drain :: "'st Server \<Rightarrow> 'st Server" where
  "drain s = SetServingStatus serviceName NOT_SERVING (SetServingStatus [] NOT_SERVING s)"

definition Stop :: "'st Server \<Rightarrow> 'st Server" where
  "Stop s = set_phase GrpcStopped s"

text \<open>
  The end of \<open>main\<close> after the signal: the metrics server gets up to ten seconds, the rest of them
  is left for the graceful stop, then the stop is forced. \<open>metrics_time\<close> and \<open>drain_time\<close> say how
  long the two would take, \<^const>\<open>None\<close> if they never end. The result has the time spent.
\<close>

definition shutdown :: "int option \<Rightarrow> int option \<Rightarrow> 'st Server \<Rightarrow> 'st Server \<times> int" where
  "shutdown metrics_time drain_time s =
     (let limit = sint (10 * Second);
          spent = (case metrics_time of None \<Rightarrow> limit | Some t \<Rightarrow> min t limit);
          s1 = drain s
      in case drain_time of
           Some t \<Rightarrow> if spent + t < limit then (set_phase GrpcStoppedGracefully s1, spent + t)
                     else (Stop s1, limit)
         | None \<Rightarrow> (Stop s1, limit))"

section \<open>Properties\<close>

lemma chain_returns:
  assumes "\<And>h s. (\<exists>s' e. h s = (s', HandlerReturn e)) \<Longrightarrow> \<exists>s' e. prometheus h s = (s', HandlerReturn e)"
  shows "\<exists>s' e. chain (StreamInterceptors (DefaultServerOptions prometheus cfg)) h s = (s', HandlerReturn e)"
proof -
  have "\<exists>s' e. recoveryStreamInterceptor h s = (s', HandlerReturn e)" for s
    by (cases "h s"; cases "snd (h s)") (auto simp: recoveryStreamInterceptor_def)
  then have "\<exists>s' e. loggingStreamInterceptor (recoveryStreamInterceptor h) s = (s', HandlerReturn e)" for s
    by (auto simp: loggingStreamInterceptor_def split: prod.split)
  then show ?thesis using assms by (simp add: chain_def DefaultServerOptions_def)
qed

lemma shutdown_bounded:
  assumes "\<And>t. metrics_time = Some t \<Longrightarrow> 0 \<le> t" and "\<And>t. drain_time = Some t \<Longrightarrow> 0 \<le> t"
  shows "0 \<le> snd (shutdown metrics_time drain_time s) \<and> snd (shutdown metrics_time drain_time s) \<le> 10000000000"
    and "healthServer (fst (shutdown metrics_time drain_time s)) serviceName = Some NOT_SERVING"
  using assms by (auto simp: shutdown_def Let_def Second_def Stop_def set_phase_def drain_def SetServingStatus_def
      split: option.splits)

text \<open>
  C28. Transport security of a server that starts: it has TLS credentials exactly when a
  certificate file is configured, they always require TLS 1.2, and they demand a verified client
  certificate from a non-empty pool exactly when a CA file is configured too. A broken
  certificate or CA file stops the start instead of weakening the credentials. A CA file without
  a certificate file gives a server without any TLS.
\<close>

theorem main_options_credentials:
  "case main_options env prometheus cfg of
     Inl e \<Rightarrow> CertFile (TLS (ServerOf cfg)) \<noteq> []
   | Inr opts \<Rightarrow>
       (case Creds opts of
          None \<Rightarrow> CertFile (TLS (ServerOf cfg)) = []
        | Some tc \<Rightarrow> CertFile (TLS (ServerOf cfg)) \<noteq> [] \<and> MinVersionTLS12 tc
            \<and> (\<exists>cert. LoadX509KeyPair env (CertFile (TLS (ServerOf cfg))) (KeyFile (TLS (ServerOf cfg))) = Inr cert
                 \<and> Certificates tc = [cert])
            \<and> (RequireAndVerifyClientCert tc \<longleftrightarrow> CAFile (TLS (ServerOf cfg)) \<noteq> [])
            \<and> (RequireAndVerifyClientCert tc \<longrightarrow> (\<exists>pool. ClientCAs tc = Some pool \<and> pool \<noteq> [])))"
  by (auto simp: main_options_def TLSOption_def DefaultServerOptions_def Let_def split: sum.split)

definition example_tls :: tls_env where
  "example_tls = \<lparr>LoadX509KeyPair = (\<lambda>c k. if c = [] then Inl ''no such file'' else Inr c),
     ReadCAFile = (\<lambda>f. Inr f), CertsFromPEM = (\<lambda>pem. if pem = ''ca.pem'' then [pem] else [])\<rparr>"

definition mtls_config :: Config where
  "mtls_config = default_config\<lparr>ServerOf := (ServerOf default_config)\<lparr>TLS :=
     \<lparr>CertFile = ''cert.pem'', KeyFile = ''key.pem'', CAFile = ''ca.pem''\<rparr>\<rparr>\<rparr>"

definition no_metrics :: "nat stream_handler \<Rightarrow> nat stream_handler" where
  "no_metrics h = h"

theorem main_options_credentials_witness:
  "\<exists>opts tc. main_options example_tls no_metrics mtls_config = Inr opts \<and> Creds opts = Some tc \<and> RequireAndVerifyClientCert tc"
proof -
  obtain opts tc where opts: "main_options example_tls no_metrics mtls_config = Inr opts" "Creds opts = Some tc"
    by (simp add: main_options_def TLSOption_def example_tls_def mtls_config_def Let_def)
  have "CAFile (TLS (ServerOf mtls_config)) \<noteq> []" by (simp add: mtls_config_def)
  then have "RequireAndVerifyClientCert tc"
    using main_options_credentials [where env = example_tls and prometheus = no_metrics and cfg = mtls_config] opts by simp
  with opts show ?thesis by blast
qed

end
