(* ===== verification/Assembly.thy ===== *)
theory Assembly
  imports Redis Admin Lifecycle
begin

text \<open>
  The assembly of the server from its configuration and the hot-reload loop
  (\<open>src/cmd/rlqs-server/main.go\<close>): the store, the quota engine, strategies and time units, the
  domain classifier, and what one configuration received from the watcher does to the running
  server and to the admin handler.
\<close>

section \<open>Builders\<close>

datatype built_store = BuiltRedis RedisStorage | BuiltMemory MemoryStorage

definition buildStore :: "Config \<Rightarrow> built_store" where
  "buildStore cfg =
     (if StorageType (StorageOf cfg) = ''redis''
      then BuiltRedis (NewRedisStorage
             \<lparr>Addr = CR_Addr (RedisOf (StorageOf cfg)),
              PoolSize = CR_PoolSize (RedisOf (StorageOf cfg)),
              KeyTTL = ReportingInterval (EngineOf cfg) * 6,
              MaxFallbackKeys = 0\<rparr>)
      else BuiltMemory NewMemoryStorage)"

text \<open>
  \<open>strings.ToUpper\<close> on the bytes of a string, as far as the result can consist of ASCII letters:
  besides \<open>a\<close> to \<open>z\<close> these are the dotless i (bytes C4 B1) and the long s (bytes C5 BF).
\<close>

fun ToUpper :: "string \<Rightarrow> string" where
  "ToUpper [] = []"
| "ToUpper [c] = [if CHR ''a'' \<le> c \<and> c \<le> CHR ''z'' then char_of (of_char c - (32 :: nat)) else c]"
| "ToUpper (c # c' # cs) =
     (if c = CHR 0xC4 \<and> c' = CHR 0xB1 then CHR ''I'' # ToUpper cs
      else if c = CHR 0xC5 \<and> c' = CHR 0xBF then CHR ''S'' # ToUpper cs
      else (if CHR ''a'' \<le> c \<and> c \<le> CHR ''z'' then char_of (of_char c - (32 :: nat)) else c) # ToUpper (c' # cs))"

definition parseTimeUnit :: "string \<Rightarrow> RateLimitUnit" where
  "parseTimeUnit s =
     (let u = ToUpper s
      in if u = ''SECOND'' then SECOND
         else if u = ''MINUTE'' then MINUTE
         else if u = ''HOUR'' then HOUR
         else if u = ''DAY'' then DAY
         else if u = ''MONTH'' then MONTH
         else if u = ''YEAR'' then YEAR
         else SECOND)"

definition token_bucket :: "uint64 \<Rightarrow> duration \<Rightarrow> RateLimitStrategy" where
  "token_bucket tokens interval =
     StrategyTokenBucket \<lparr>MaxTokens = ucast tokens, TokensPerFill = ucast tokens,
                          FillInterval = durationpb_New interval\<rparr>"

definition buildStrategy :: "PolicyConfig \<Rightarrow> duration \<Rightarrow> RateLimitStrategy" where
  "buildStrategy pc reportingInterval =
     (if PC_Strategy pc = ''deny'' then StrategyBlanketRule DENY_ALL
      else if PC_Strategy pc = ''allow'' then StrategyBlanketRule ALLOW_ALL
      else if PC_Strategy pc = ''requests_per_time_unit''
      then StrategyRequestsPerTimeUnit (PC_RequestsPerTimeUnit pc) (parseTimeUnit (PC_TimeUnit pc))
      else token_bucket (PC_TokensPerFill pc) reportingInterval)"

definition defaultStrategy :: "Config \<Rightarrow> RateLimitStrategy" where
  "defaultStrategy cfg = token_bucket (DefaultTokensPerFill (EngineOf cfg)) (ReportingInterval (EngineOf cfg))"

definition defaultTTL :: "Config \<Rightarrow> duration" where
  "defaultTTL cfg = ReportingInterval (EngineOf cfg) * 2"

definition build_policy :: "Config \<Rightarrow> PolicyConfig \<Rightarrow> Policy" where
  "build_policy cfg pc =
     \<lparr>DomainPattern = PC_DomainPattern pc, BucketKeyPattern = PC_BucketKeyPattern pc,
      Strategy = Some (buildStrategy pc (ReportingInterval (EngineOf cfg))),
      AssignmentTTL = Some (case PC_AssignmentTTL pc of Some d \<Rightarrow> d | None \<Rightarrow> defaultTTL cfg),
      DenyResponse = PC_DenyResponse pc,
      domainRegex = None, bucketKeyRegex = None\<rparr>"

definition engine_config :: "Config \<Rightarrow> EngineConfig" where
  "engine_config cfg =
     \<lparr>Policies = map (build_policy cfg) (elems (CE_Policies (EngineOf cfg))),
      DefaultPolicy = \<lparr>DomainPattern = [], BucketKeyPattern = [], Strategy = Some (defaultStrategy cfg),
        AssignmentTTL = Some (defaultTTL cfg), DenyResponse = None, domainRegex = None, bucketKeyRegex = None\<rparr>\<rparr>"

definition buildEngine :: "regexp_Compile \<Rightarrow> Config \<Rightarrow> engine_error + Engine" where
  "buildEngine compile cfg =
     (if length (elems (CE_Policies (EngineOf cfg))) = 0
      then Inr (DefaultEngine_value (NewDefaultEngine
             \<lparr>DefaultStrategy = Some (defaultStrategy cfg), DefaultAssignmentTTL = Some (defaultTTL cfg)\<rparr>))
      else (case policy_New compile (engine_config cfg) of
              Inl e \<Rightarrow> Inl e
            | Inr ec \<Rightarrow> Inr (Engine_value ec)))"

definition buildDomainClassifier :: "regexp_Compile \<Rightarrow> Config \<Rightarrow> classifier_error + DomainClassifier" where
  "buildDomainClassifier compile cfg =
     NewDomainClassifier compile
       (filter (\<lambda>p. p \<noteq> []) (map PC_DomainPattern (elems (CE_Policies (EngineOf cfg)))))
       (MaxMetricDomains (ServerOf cfg))"

section \<open>Hot reload\<close>

record 'st Process =
  currentCfg :: Config
  srv :: "'st Server"
  adminHandler :: Handler

abbreviation rlqs :: "'st Process \<Rightarrow> 'st RLQSServer" where
  "rlqs p \<equiv> rlqsServer (srv p)"

datatype reload_log = NoDifferences | InvalidPolicies engine_error | InvalidClassifier classifier_error | Reloaded

text \<open>One iteration of the reload loop in \<open>main\<close>; a panic in it ends the process.\<close>

definition hot_reload ::
  "regexp_Compile \<Rightarrow> Config \<Rightarrow> 'st Process \<Rightarrow> go_panic + ('st Process \<times> reload_log)" where
  "hot_reload compile newCfg p =
     (let changes = Diff (currentCfg p) newCfg
      in if length changes = 0 then Inr (p, NoDifferences)
         else
           let restartChanges = filter (\<lambda>c. Scope c = ScopeRequiresRestart) changes;
               p1 = p\<lparr>adminHandler := SetPendingRestartChanges restartChanges (adminHandler p)\<rparr>
           in (case buildEngine compile newCfg of
                 Inl e \<Rightarrow> Inr (p1, InvalidPolicies e)
               | Inr newEngine \<Rightarrow>
                   (case buildDomainClassifier compile newCfg of
                      Inl e \<Rightarrow> Inr (p1, InvalidClassifier e)
                    | Inr newClassifier \<Rightarrow>
                        (case Server_SwapEngine newEngine (srv p1) of
                           Inl panic \<Rightarrow> Inl panic
                         | Inr s \<Rightarrow>
                             Inr (p1\<lparr>srv := Server_SwapDomainClassifier newClassifier s, currentCfg := newCfg\<rparr>,
                                  Reloaded)))))"

text \<open>The state in which \<open>main\<close> enters the reload loop.\<close>

definition start_process ::
  "regexp_Compile \<Rightarrow> 'st RLQSServer server_options \<Rightarrow> 'st \<Rightarrow> Config \<Rightarrow> 'st Process option" where
  "start_process compile opts st cfg =
     (case (buildEngine compile cfg, buildDomainClassifier compile cfg) of
        (Inr eng, Inr classifier) \<Rightarrow>
          Some \<lparr>currentCfg = cfg, srv = server_New compile st eng (ServerOf cfg) (Some classifier) opts,
                adminHandler = admin_New cfg\<rparr>
      | _ \<Rightarrow> None)"

section \<open>The engine follows the configuration\<close>

text \<open>The assignment the configuration prescribes for a bucket: first matching policy, else the default.\<close>

definition configured_assignment :: "regexp_Compile \<Rightarrow> Config \<Rightarrow> string \<Rightarrow> BucketKey \<Rightarrow> QuotaAssignmentAction" where
  "configured_assignment compile cfg d key =
     (case find (\<lambda>pc. pattern_applies compile (PC_DomainPattern pc) d \<and> pattern_applies compile (PC_BucketKeyPattern pc) key)
             (elems (CE_Policies (EngineOf cfg))) of
        None \<Rightarrow> assignment_of (Some (defaultTTL cfg)) (Some (defaultStrategy cfg))
      | Some pc \<Rightarrow> assignment_of (Some (case PC_AssignmentTTL pc of Some t \<Rightarrow> t | None \<Rightarrow> defaultTTL cfg))
                     (Some (buildStrategy pc (ReportingInterval (EngineOf cfg)))))"

lemma find_map: "find P (map f xs) = map_option f (find (P \<circ> f) xs)"
  by (induction xs) auto

lemma chosen_policy_config:
  "assignment_of (AssignmentTTL (chosen_policy compile (engine_config cfg) d key))
     (Strategy (chosen_policy compile (engine_config cfg) d key)) = configured_assignment compile cfg d key"
  by (simp add: chosen_policy_def engine_config_def configured_assignment_def find_map comp_def policy_applies_def
      build_policy_def split: option.split)

lemma engine_config_uncompiled:
  "\<forall>p \<in> set (Policies (engine_config cfg)). uncompiled p" "uncompiled (DefaultPolicy (engine_config cfg))"
  by (auto simp: engine_config_def uncompiled_def build_policy_def)

lemma buildEngine_quota_engine:
  assumes "buildEngine compile cfg = Inr e"
  shows "quota_engine (ProcessUsage e) (configured_assignment compile cfg)"
proof (cases "elems (CE_Policies (EngineOf cfg)) = []")
  case True
  then have "configured_assignment compile cfg =
      (\<lambda>d key. assignment_of (Some (defaultTTL cfg)) (Some (defaultStrategy cfg)))"
    by (simp add: configured_assignment_def fun_eq_iff)
  then show ?thesis
    using assms True default_engine.quota_engine_axioms
      [of "\<lparr>DefaultStrategy = Some (defaultStrategy cfg), DefaultAssignmentTTL = Some (defaultTTL cfg)\<rparr>"]
    by (auto simp: buildEngine_def DefaultEngine_value_def NewDefaultEngine_def)
next
  case False
  then obtain ec where ec: "policy_New compile (engine_config cfg) = Inr ec" "e = Engine_value ec"
    using assms by (auto simp: buildEngine_def split: sum.splits)
  have "policy_decision ec d key = configured_assignment compile cfg d key" for d key
    using select_policy_compiled [OF ec(1) engine_config_uncompiled, of d key] chosen_policy_config [of compile cfg d key]
    by (simp add: policy_decision_def)
  then have "policy_decision ec = configured_assignment compile cfg" by (simp add: fun_eq_iff)
  then show ?thesis using policy_engine.quota_engine_axioms [of ec] ec(2) by (simp add: Engine_value_def)
qed

text \<open>
  C8. The engine built from a configuration answers every report that names a bucket with the
  assignment the configuration prescribes for it: strategy and TTL of the first policy whose
  patterns apply, the default token bucket with twice the reporting interval as TTL otherwise;
  with and without policies, in report order, never failing.
\<close>

theorem buildEngine_implements_config:
  assumes "buildEngine compile cfg = Inr e"
  shows "ProcessUsage e ctx d reports =
    Inr (map (\<lambda>r. \<lparr>ActionBucketId = ReportBucketId r,
                   ActionKind = QuotaAssignment (configured_assignment compile cfg d (BucketKeyFromProto (ReportBucketId r)))\<rparr>)
          (filter (\<lambda>r. has_bucket (ReportBucketId r)) reports))"
  using quota_engine.ProcessUsage_eq [OF buildEngine_quota_engine [OF assms]] .

definition deny_policy :: PolicyConfig where
  "deny_policy = \<lparr>PC_DomainPattern = ''api'', PC_BucketKeyPattern = [], PC_TokensPerFill = 0, PC_RPS = 0,
     PC_AssignmentTTL = None, PC_Strategy = ''deny'', PC_RequestsPerTimeUnit = 0, PC_TimeUnit = [],
     PC_DenyResponse = None\<rparr>"

definition deny_config :: Config where
  "deny_config = default_config\<lparr>EngineOf := (EngineOf default_config)\<lparr>CE_Policies := Some [deny_policy]\<rparr>\<rparr>"

lemma deny_config_builds: "\<exists>ec. buildEngine literal_Compile deny_config = Inr (Engine_value ec)"
  by (simp add: buildEngine_def deny_config_def deny_policy_def engine_config_def build_policy_def policy_New_def
      compilePatterns_def compile_domain_def compile_bucketKey_def literal_Compile_def MaxPatternLength_def)
    (rule exI, rule refl)

theorem buildEngine_implements_config_witness:
  "\<exists>e. buildEngine literal_Compile deny_config = Inr e
    \<and> ProcessUsage e Background ''api'' [report_of example_usage] =
        Inr [\<lparr>ActionBucketId = Some example_bucket,
              ActionKind = QuotaAssignment (assignment_of (Some (20 * Second)) (Some (StrategyBlanketRule DENY_ALL)))\<rparr>]"
proof -
  obtain e where e: "buildEngine literal_Compile deny_config = Inr e" using deny_config_builds by blast
  have "configured_assignment literal_Compile deny_config ''api'' key =
      assignment_of (Some (20 * Second)) (Some (StrategyBlanketRule DENY_ALL))" for key
    by (simp add: configured_assignment_def deny_config_def deny_policy_def pattern_applies_def literal_Compile_def
        buildStrategy_def defaultTTL_def default_config_def)
  then show ?thesis
    using e buildEngine_implements_config [OF e]
    by (simp add: example_usage_def report_of_def example_bucket_def has_bucket_def)
qed

lemma compile_domain_patterns_total:
  "\<forall>p \<in> set ps. p \<noteq> [] \<longrightarrow> (\<exists>r. compile p = Inr r) \<Longrightarrow> \<exists>rs. compile_domain_patterns compile ps = Inr rs"
  by (induction ps) auto

lemma compilePatterns_domain:
  "compilePatterns compile p = Inr p' \<Longrightarrow> DomainPattern p \<noteq> [] \<Longrightarrow> \<exists>r. compile (DomainPattern p) = Inr r"
  by (auto simp: compilePatterns_def compile_domain_def split: sum.splits if_splits)

lemma classifier_builds:
  assumes "buildEngine compile cfg = Inr e"
  shows "\<exists>c. buildDomainClassifier compile cfg = Inr c"
proof -
  let ?pcs = "elems (CE_Policies (EngineOf cfg))"
  have "\<exists>r. compile (PC_DomainPattern pc) = Inr r" if pc: "pc \<in> set ?pcs" "PC_DomainPattern pc \<noteq> []" for pc
  proof -
    obtain ec where "policy_New compile (engine_config cfg) = Inr ec"
      using assms pc(1) by (auto simp: buildEngine_def split: sum.splits if_splits)
    then have "list_all2 (\<lambda>p p'. compilePatterns compile p = Inr p') (Policies (engine_config cfg)) (Policies ec)"
      by (rule policy_New_Inr(1))
    then obtain p' where "compilePatterns compile (build_policy cfg pc) = Inr p'"
      using pc(1) by (auto simp: engine_config_def list_all2_conv_all_nth in_set_conv_nth)
    then show ?thesis using compilePatterns_domain [of compile "build_policy cfg pc"] pc(2) by (simp add: build_policy_def)
  qed
  then have "\<exists>rs. compile_domain_patterns compile (filter (\<lambda>p. p \<noteq> []) (map PC_DomainPattern ?pcs)) = Inr rs"
    by (intro compile_domain_patterns_total) auto
  then show ?thesis by (auto simp: buildDomainClassifier_def NewDomainClassifier_def Let_def)
qed

text \<open>
  A configuration whose engine builds also has a domain classifier: the error branch for
  an invalid classifier is never taken after the engine was accepted, neither at start nor on
  reload.
\<close>

theorem classifier_builds_with_engine:
  assumes "buildEngine compile cfg = Inr e"
  shows "\<exists>c. buildDomainClassifier compile cfg = Inr c"
  using classifier_builds [OF assms] .

theorem classifier_builds_with_engine_witness:
  "\<exists>e c. buildEngine literal_Compile deny_config = Inr e \<and> buildDomainClassifier literal_Compile deny_config = Inr c"
  using deny_config_builds classifier_builds_with_engine [of literal_Compile deny_config] by blast

section \<open>Properties of hot reload\<close>

definition has_policies :: "Config \<Rightarrow> bool" where
  "has_policies cfg \<longleftrightarrow> elems (CE_Policies (EngineOf cfg)) \<noteq> []"

lemma buildEngine_type:
  "buildEngine compile cfg = Inr e \<Longrightarrow>
    ConcreteType e = (if has_policies cfg then ''*policy.Engine'' else ''*quota.DefaultEngine'')"
  by (auto simp: buildEngine_def has_policies_def DefaultEngine_value_def Engine_value_def split: sum.splits if_splits)

text \<open>The process runs the engine of its current configuration, from the start and after every reload.\<close>

definition engine_current :: "regexp_Compile \<Rightarrow> 'st Process \<Rightarrow> bool" where
  "engine_current compile p \<longleftrightarrow> buildEngine compile (currentCfg p) = Inr (engine (rlqs p))"

lemma engine_current_start: "start_process compile opts st cfg = Some p \<Longrightarrow> engine_current compile p"
  by (auto simp: start_process_def engine_current_def server_New_def NewRLQS_def split: sum.splits)

lemmas swap_defs = Server_SwapEngine_def Server_SwapDomainClassifier_def SwapEngine_def engine_Store_def SwapDomainClassifier_def

lemma Diff_empty_iff: "Diff old new = [] \<longleftrightarrow> old = new"
  by (cases old; cases new) (auto simp: Diff_def)

lemma hot_reload_result:
  assumes "engine_current compile p"
  shows "case buildEngine compile newCfg of
      Inl e \<Rightarrow> \<exists>p' l. hot_reload compile newCfg p = Inr (p', l) \<and> srv p' = srv p \<and> currentCfg p' = currentCfg p
    | Inr newEngine \<Rightarrow>
        if newCfg = currentCfg p then hot_reload compile newCfg p = Inr (p, NoDifferences)
        else if has_policies newCfg \<noteq> has_policies (currentCfg p)
        then hot_reload compile newCfg p = Inl inconsistent_type
        else \<exists>p' c. hot_reload compile newCfg p = Inr (p', Reloaded)
          \<and> buildDomainClassifier compile newCfg = Inr c
          \<and> srv p' = (srv p)\<lparr>rlqsServer := (rlqs p)\<lparr>engine := newEngine, pushes := pushes (rlqs p) @ [newEngine], domainClassifier := c\<rparr>\<rparr>
          \<and> currentCfg p' = newCfg \<and> engine_current compile p'"
proof (cases "buildEngine compile newCfg")
  case (Inl e)
  then show ?thesis by (simp add: hot_reload_def Let_def)
next
  case (Inr e)
  obtain c where c: "buildDomainClassifier compile newCfg = Inr c"
    using classifier_builds [OF Inr] by blast
  have "ConcreteType e = ConcreteType (engine (rlqs p)) \<longleftrightarrow> has_policies newCfg = has_policies (currentCfg p)"
    using buildEngine_type [OF Inr] buildEngine_type [OF assms [unfolded engine_current_def]] by simp
  then show ?thesis
    using Inr c by (auto simp: hot_reload_def Let_def Diff_empty_iff swap_defs engine_current_def)
qed

text \<open>
  C14. What a reload does to the running process. A configuration without differences and one
  whose policies are invalid leave the server and the current configuration as they are. A
  valid one that keeps the kind of engine installs the engine and classifier built from it and
  schedules one push; streams, subscriptions, reference counts, the store and the limits of the
  running server stay untouched. A valid one that adds the first policy or removes the last one
  panics, because the stored engine's concrete type may not change.
\<close>

theorem hot_reload_outcome:
  assumes "engine_current compile p"
  shows "case buildEngine compile newCfg of
      Inl e \<Rightarrow> \<exists>p' l. hot_reload compile newCfg p = Inr (p', l) \<and> srv p' = srv p \<and> currentCfg p' = currentCfg p
    | Inr newEngine \<Rightarrow>
        if newCfg = currentCfg p then hot_reload compile newCfg p = Inr (p, NoDifferences)
        else if has_policies newCfg \<noteq> has_policies (currentCfg p)
        then hot_reload compile newCfg p = Inl inconsistent_type
        else \<exists>p' c. hot_reload compile newCfg p = Inr (p', Reloaded)
          \<and> buildDomainClassifier compile newCfg = Inr c
          \<and> srv p' = (srv p)\<lparr>rlqsServer := (rlqs p)\<lparr>engine := newEngine, pushes := pushes (rlqs p) @ [newEngine], domainClassifier := c\<rparr>\<rparr>
          \<and> currentCfg p' = newCfg \<and> engine_current compile p'"
  using hot_reload_result [OF assms] .

definition plain_options :: "MemoryStorage RLQSServer server_options" where
  "plain_options = DefaultServerOptions id (ServerOf default_config)"

theorem hot_reload_outcome_witness:
  "\<exists>p. start_process literal_Compile plain_options NewMemoryStorage default_config = Some p
    \<and> hot_reload literal_Compile deny_config p = Inl inconsistent_type"
proof -
  have "\<exists>p. start_process literal_Compile plain_options NewMemoryStorage default_config = Some p \<and> currentCfg p = default_config"
    by (simp add: start_process_def buildEngine_def buildDomainClassifier_def NewDomainClassifier_def default_config_def)
  then obtain p where p: "start_process literal_Compile plain_options NewMemoryStorage default_config = Some p"
      "currentCfg p = default_config" by blast
  obtain ec where ec: "buildEngine literal_Compile deny_config = Inr (Engine_value ec)" using deny_config_builds by blast
  have kinds: "has_policies deny_config" "\<not> has_policies default_config"
    by (simp_all add: has_policies_def deny_config_def default_config_def)
  then have "deny_config \<noteq> currentCfg p" using p(2) by auto
  then show ?thesis
    using hot_reload_outcome [OF engine_current_start [OF p(1)], of deny_config] ec p kinds by auto
qed

text \<open>
  Pending restarts are forgotten. After a reload that changed the server section, a
  further reload that changes only the engine section clears the list the admin endpoint
  reports, although the running server still has the limits it was started with.
\<close>

theorem pending_restart_forgotten:
  assumes "hot_reload compile cfg1 p = Inr (p1, Reloaded)" and "ServerOf cfg1 \<noteq> ServerOf (currentCfg p)"
    and "hot_reload compile (cfg1\<lparr>EngineOf := e\<rparr>) p1 = Inr (p2, Reloaded)"
  shows "\<lparr>Section = ''server'', Scope = ScopeRequiresRestart\<rparr> \<in> set (pendingRestartChanges (adminHandler p1))
    \<and> pendingRestartChanges (adminHandler p2) = []
    \<and> ServerOf (currentCfg p2) \<noteq> ServerOf (currentCfg p)
    \<and> same_limits (rlqs p) (rlqs p2)"
proof -
  have step: "pendingRestartChanges (adminHandler q') = filter (\<lambda>c. Scope c = ScopeRequiresRestart) (Diff (currentCfg q) cfg)
      \<and> currentCfg q' = cfg \<and> same_limits (rlqs q) (rlqs q')"
    if "hot_reload compile cfg q = Inr (q', Reloaded)" for cfg q q'
    using that by (auto simp: hot_reload_def Let_def SetPendingRestartChanges_def swap_defs same_limits_def split: sum.splits if_splits)
  show ?thesis
    using step [OF assms(1)] step [OF assms(3)] assms(2) by (auto simp: Diff_def same_limits_def)
qed

lemma reload_without_policies:
  assumes "\<not> has_policies newCfg" and "newCfg \<noteq> currentCfg p" and "ConcreteType (engine (rlqs p)) = ''*quota.DefaultEngine''"
  shows "\<exists>p'. hot_reload compile newCfg p = Inr (p', Reloaded) \<and> currentCfg p' = newCfg
    \<and> ConcreteType (engine (rlqs p')) = ''*quota.DefaultEngine''"
proof -
  obtain e where e: "buildEngine compile newCfg = Inr e" using assms(1) by (simp add: buildEngine_def has_policies_def)
  obtain c where c: "buildDomainClassifier compile newCfg = Inr c" using classifier_builds [OF e] by blast
  show ?thesis
    using assms e c buildEngine_type [OF e]
    by (simp add: hot_reload_def Let_def Diff_empty_iff swap_defs)
qed

theorem pending_restart_forgotten_witness:
  "\<exists>p p1 p2 cfg1. start_process literal_Compile plain_options NewMemoryStorage default_config = Some p
    \<and> hot_reload literal_Compile cfg1 p = Inr (p1, Reloaded)
    \<and> hot_reload literal_Compile (cfg1\<lparr>EngineOf := (EngineOf cfg1)\<lparr>DefaultTokensPerFill := 7\<rparr>\<rparr>) p1 = Inr (p2, Reloaded)
    \<and> pendingRestartChanges (adminHandler p2) = [] \<and> ServerOf (currentCfg p2) \<noteq> ServerOf default_config"
proof -
  let ?c1 = "default_config\<lparr>ServerOf := (ServerOf default_config)\<lparr>MaxBucketsPerStream := 5\<rparr>\<rparr>"
  let ?e = "(EngineOf ?c1)\<lparr>DefaultTokensPerFill := 7\<rparr>"
  have "\<exists>p. start_process literal_Compile plain_options NewMemoryStorage default_config = Some p \<and> currentCfg p = default_config
      \<and> ConcreteType (engine (rlqs p)) = ''*quota.DefaultEngine''"
    by (simp add: start_process_def buildEngine_def buildDomainClassifier_def NewDomainClassifier_def default_config_def
        server_New_def NewRLQS_def DefaultEngine_value_def)
  then obtain p where p: "start_process literal_Compile plain_options NewMemoryStorage default_config = Some p"
      "currentCfg p = default_config" "ConcreteType (engine (rlqs p)) = ''*quota.DefaultEngine''" by blast
  have server: "ServerOf ?c1 \<noteq> ServerOf (currentCfg p)" using p(2) by (simp add: default_config_def)
  have "?c1 \<noteq> currentCfg p" using p(2) by (simp add: default_config_def)
  then obtain p1 where p1: "hot_reload literal_Compile ?c1 p = Inr (p1, Reloaded)" "currentCfg p1 = ?c1"
      "ConcreteType (engine (rlqs p1)) = ''*quota.DefaultEngine''"
    using reload_without_policies [of ?c1 p literal_Compile] p(3) by (auto simp: has_policies_def default_config_def)
  have "?c1\<lparr>EngineOf := ?e\<rparr> \<noteq> currentCfg p1" using p1(2) by (simp add: default_config_def)
  then obtain p2 where p2: "hot_reload literal_Compile (?c1\<lparr>EngineOf := ?e\<rparr>) p1 = Inr (p2, Reloaded)"
    using reload_without_policies [of "?c1\<lparr>EngineOf := ?e\<rparr>" p1 literal_Compile] p1(3)
    by (auto simp: has_policies_def default_config_def)
  note forgotten = pending_restart_forgotten [OF p1(1) server p2]
  show ?thesis
    by (rule exI [of _ p], rule exI [of _ p1], rule exI [of _ p2], rule exI [of _ ?c1])
      (use forgotten p p1(1) p2 in simp)
qed

text \<open>
  A configured token count reaches clients unchanged exactly when it fits 32 bits; larger
  counts are silently reduced modulo two to the thirty-two, down to zero tokens.
\<close>

theorem buildStrategy_tokens:
  assumes "PC_Strategy pc \<notin> {''deny'', ''allow'', ''requests_per_time_unit''}"
  shows "\<exists>tb. buildStrategy pc interval = StrategyTokenBucket tb
    \<and> unat (MaxTokens tb) = unat (PC_TokensPerFill pc) mod 2 ^ 32 \<and> TokensPerFill tb = MaxTokens tb
    \<and> (unat (MaxTokens tb) = unat (PC_TokensPerFill pc) \<longleftrightarrow> unat (PC_TokensPerFill pc) < 2 ^ 32)"
proof -
  have "unat (ucast w :: uint32) = unat w mod 2 ^ 32" for w :: uint64
    by (simp add: unsigned_ucast_eq take_bit_eq_mod)
  moreover have "n mod 2 ^ 32 = n \<longleftrightarrow> n < 2 ^ 32" for n :: nat
    by (metis mod_less mod_less_divisor zero_less_numeral zero_less_power)
  ultimately show ?thesis using assms by (simp add: buildStrategy_def token_bucket_def)
qed

theorem buildStrategy_tokens_witness:
  "\<exists>tb. buildStrategy (deny_policy\<lparr>PC_Strategy := [], PC_TokensPerFill := 2 ^ 32\<rparr>) Second = StrategyTokenBucket tb
    \<and> unat (MaxTokens tb) = 0"
  using buildStrategy_tokens [of "deny_policy\<lparr>PC_Strategy := [], PC_TokensPerFill := 2 ^ 32\<rparr>" Second] by auto

section \<open>Intervals are not validated\<close>

lemma sint_of_int_id: "- (2 ^ 63) \<le> k \<Longrightarrow> k < 2 ^ 63 \<Longrightarrow> sint (of_int k :: duration) = k"
  by (simp add: signed_of_int signed_take_bit_int_eq_self)

lemma sint_range: "- (2 ^ 63) \<le> sint (w :: duration)" "sint (w :: duration) < 2 ^ 63"
  using sint_ge [of w] sint_lt [of w] by simp_all

lemma duration_times: "(w :: duration) * numeral k = of_int (sint w * numeral k)"
  by simp

lemma sint_times_wrapped: "2 ^ 62 \<le> sint (w :: duration) \<Longrightarrow> sint (w * 2) = 2 * sint w - 2 ^ 64"
proof -
  assume big: "2 ^ 62 \<le> sint w"
  have eq: "w * 2 = of_int (2 * sint w - 2 ^ 64)" by simp
  show ?thesis unfolding eq by (rule sint_of_int_id) (use big sint_range(2) [of w] in simp_all)
qed

lemma buildStore_keyTTL:
  assumes "buildStore cfg = BuiltRedis r"
  defines "w \<equiv> ReportingInterval (EngineOf cfg)"
  shows "0 < sint (keyTTL r)" "sint w \<in> {1..<2 ^ 63 div 6} \<Longrightarrow> sint (keyTTL r) = 6 * sint w"
    "sint w \<in> {- (2 ^ 63 div 6)..0} \<Longrightarrow> sint (keyTTL r) = 60000000000"
proof -
  have key: "sint (keyTTL r) = (if sint (w * 6) \<le> 0 then 60000000000 else sint (w * 6))"
    using assms sint_defaults(1) by (auto simp: buildStore_def NewRedisStorage_def Let_def split: if_splits)
  have six: "sint (w * 6) = 6 * sint w" if "sint w \<in> {- (2 ^ 63 div 6)..<2 ^ 63 div 6}"
    using sint_of_int_id [of "sint w * 6"] that by (simp add: duration_times del: of_int_mult)
  show "0 < sint (keyTTL r)" unfolding key by (simp only: if_split) linarith
  show "sint (keyTTL r) = 6 * sint w" if "sint w \<in> {1..<2 ^ 63 div 6}"
  proof -
    have "sint (w * 6) = 6 * sint w" by (rule six) (use that in simp)
    then show ?thesis using that unfolding key by simp
  qed
  show "sint (keyTTL r) = 60000000000" if "sint w \<in> {- (2 ^ 63 div 6)..0}"
  proof -
    have "sint (w * 6) = 6 * sint w" by (rule six) (use that in simp)
    then show ?thesis using that unfolding key by simp
  qed
qed

text \<open>
  C34. The durations \<open>main\<close> derives from the reporting interval. The TTL of assignments is
  twice the interval exactly when that fits 64 bits; for a longer interval it wraps round to a
  negative TTL. The expiry of Redis keys is always positive: six times a positive interval when
  that fits, a minute for an interval that is zero or negative.
\<close>

theorem derived_durations:
  "(sint (defaultTTL cfg) = 2 * sint (ReportingInterval (EngineOf cfg)) \<longleftrightarrow>
      sint (ReportingInterval (EngineOf cfg)) \<in> {- (2 ^ 62)..<2 ^ 62})
    \<and> (2 ^ 62 \<le> sint (ReportingInterval (EngineOf cfg)) \<longrightarrow> sint (defaultTTL cfg) < 0)
    \<and> (\<forall>r. buildStore cfg = BuiltRedis r \<longrightarrow>
         0 < sint (keyTTL r)
         \<and> (sint (ReportingInterval (EngineOf cfg)) \<in> {1..<2 ^ 63 div 6} \<longrightarrow>
              sint (keyTTL r) = 6 * sint (ReportingInterval (EngineOf cfg)))
         \<and> (sint (ReportingInterval (EngineOf cfg)) \<in> {- (2 ^ 63 div 6)..0} \<longrightarrow> sint (keyTTL r) = 60000000000))"
proof -
  let ?w = "ReportingInterval (EngineOf cfg)"
  have two: "sint (?w * 2) = 2 * sint ?w" if "sint ?w \<in> {- (2 ^ 62)..<2 ^ 62}"
    using sint_of_int_id [of "sint ?w * 2"] that by (simp add: duration_times del: of_int_mult)
  have "sint ?w \<in> {- (2 ^ 62)..<2 ^ 62}" if "sint (?w * 2) = 2 * sint ?w"
    using sint_range [of "?w * 2"] unfolding that by simp
  then have ttl: "sint (?w * 2) = 2 * sint ?w \<longleftrightarrow> sint ?w \<in> {- (2 ^ 62)..<2 ^ 62}" using two by blast
  have neg: "2 ^ 62 \<le> sint ?w \<longrightarrow> sint (?w * 2) < 0"
  proof
    assume "2 ^ 62 \<le> sint ?w"
    then show "sint (?w * 2) < 0" unfolding sint_times_wrapped [OF \<open>2 ^ 62 \<le> sint ?w\<close>] using sint_range(2) [of ?w] by simp
  qed
  have "0 < sint (keyTTL r) \<and> (sint ?w \<in> {1..<2 ^ 63 div 6} \<longrightarrow> sint (keyTTL r) = 6 * sint ?w)
      \<and> (sint ?w \<in> {- (2 ^ 63 div 6)..0} \<longrightarrow> sint (keyTTL r) = 60000000000)" if "buildStore cfg = BuiltRedis r" for r
    using buildStore_keyTTL [OF that] by blast
  then show ?thesis unfolding defaultTTL_def using ttl neg by blast
qed

theorem derived_durations_witness:
  "sint (defaultTTL default_config) = 20000000000
   \<and> (\<exists>r. buildStore (default_config\<lparr>StorageOf := (StorageOf default_config)\<lparr>StorageType := ''redis''\<rparr>\<rparr>) = BuiltRedis r
        \<and> sint (keyTTL r) = 60000000000)"
proof -
  have i: "sint (ReportingInterval (EngineOf default_config)) = 10000000000" by (simp add: default_config_def Second_def)
  let ?c = "default_config\<lparr>StorageOf := (StorageOf default_config)\<lparr>StorageType := ''redis''\<rparr>\<rparr>"
  obtain r where r: "buildStore ?c = BuiltRedis r" by (simp add: buildStore_def)
  have "sint (keyTTL r) = 60000000000" using derived_durations [of ?c] r i by auto
  then show ?thesis using derived_durations [of default_config] i r by auto
qed

lemma sint_negated:
  assumes "k \<le> 2 ^ 62"
  shows "sint (- of_nat k :: duration) = - int k" "sint (2 * - of_nat k :: duration) = - (2 * int k)"
proof -
  have b: "int k \<le> 2 ^ 62" using assms by simp
  have "- of_nat k = (of_int (- int k) :: duration)" "2 * - of_nat k = (of_int (- (2 * int k)) :: duration)" by simp_all
  moreover have "sint (of_int (- int k) :: duration) = - int k" "sint (of_int (- (2 * int k)) :: duration) = - (2 * int k)"
    using b by (intro sint_of_int_id; simp)+
  ultimately show "sint (- of_nat k :: duration) = - int k" "sint (2 * - of_nat k :: duration) = - (2 * int k)" by (simp_all only:)
qed

text \<open>
  A negative reporting interval is accepted: it loads, an engine is built from it, and the
  token bucket and the TTL assigned to clients are negative durations.
\<close>

theorem negative_interval_is_assigned:
  assumes "list_all is_digit ds" and "ds \<noteq> []" and "unitMap u = Some n"
    and "0 < decimal 0 ds * n" and "decimal 0 ds * n \<le> 2 ^ 62"
    and "Getenv env ''RLQS_REPORTING_INTERVAL'' = CHR ''-'' # ds @ u"
    and "load_file env path = Inr f" and "elems (CE_Policies (EngineOf f)) = []"
  shows "\<exists>cfg e i. Load env path = Inr cfg \<and> buildEngine compile cfg = Inr e
    \<and> configured_assignment compile cfg d key =
        assignment_of (Some (2 * i)) (Some (token_bucket (DefaultTokensPerFill (EngineOf cfg)) i))
    \<and> sint i = - int (decimal 0 ds * n) \<and> sint (2 * i) = - (2 * int (decimal 0 ds * n))"
proof -
  let ?k = "decimal 0 ds * n" and ?i = "- of_nat (decimal 0 ds * n) :: duration"
  obtain cfg where cfg: "Load env path = Inr cfg" using assms(7) by (simp add: Load_def)
  have eng: "EngineOf cfg = override_engine env (resolveDeprecated (EngineOf f))" using cfg assms(7) by (auto simp: Load_Inr)
  have "ParseDuration (CHR ''-'' # ds @ u) = Inr ?i" using ParseDuration_unit(2) [OF assms(1-3)] assms(5) by simp
  then have iv: "ReportingInterval (EngineOf cfg) = ?i"
    unfolding eng using assms(6) by (simp add: override_engine_def override_def Let_def)
  have none: "elems (CE_Policies (EngineOf cfg)) = []"
    unfolding eng using assms(8)
    by (simp add: override_engine_def override_def override_tokens_def set_tokens_def resolveDeprecated_def Let_def split: option.split sum.split)
  have s: "sint ?i = - int ?k" "sint (2 * ?i) = - (2 * int ?k)" by (rule sint_negated [OF assms(5)])+
  have "configured_assignment compile cfg d key =
      assignment_of (Some (2 * ?i)) (Some (token_bucket (DefaultTokensPerFill (EngineOf cfg)) ?i))"
    by (simp add: configured_assignment_def none defaultTTL_def defaultStrategy_def iv mult.commute)
  moreover obtain e where "buildEngine compile cfg = Inr e" using none by (simp add: buildEngine_def)
  ultimately show ?thesis using cfg s by blast
qed

theorem negative_interval_is_assigned_witness:
  "\<exists>cfg e i. Load (env_with ''RLQS_REPORTING_INTERVAL'' ''-5s'') [] = Inr cfg \<and> buildEngine literal_Compile cfg = Inr e
    \<and> configured_assignment literal_Compile cfg ''d'' ''k'' =
        assignment_of (Some (2 * i)) (Some (token_bucket (DefaultTokensPerFill (EngineOf cfg)) i))
    \<and> sint i = -5000000000 \<and> sint (2 * i) = -10000000000"
proof -
  let ?env = "env_with ''RLQS_REPORTING_INTERVAL'' ''-5s''"
  have f: "load_file ?env [] = Inr default_config" by (simp add: load_file_def)
  have parts: "list_all is_digit ''5''" "''5'' \<noteq> []" "unitMap ''s'' = Some 1000000000"
      "Getenv ?env ''RLQS_REPORTING_INTERVAL'' = CHR ''-'' # ''5'' @ ''s''" "decimal 0 ''5'' = 5"
    by (simp_all add: is_digit_def unitMap_def env_with_def digit_value_def less_eq_char_def)
  have "elems (CE_Policies (EngineOf default_config)) = []" by (simp add: default_config_def)
  then show ?thesis
    using negative_interval_is_assigned [OF parts(1-3) _ _ parts(4) f, of literal_Compile "''d''" "''k''"] parts(5) by simp
qed

section \<open>Deny responses\<close>

definition without_deny_responses :: "Config \<Rightarrow> Config" where
  "without_deny_responses cfg =
     cfg\<lparr>EngineOf := (EngineOf cfg)\<lparr>CE_Policies :=
       map_option (map (\<lambda>pc. pc\<lparr>PC_DenyResponse := None\<rparr>)) (CE_Policies (EngineOf cfg))\<rparr>\<rparr>"

text \<open>
  The configured deny responses have no effect: an engine answers every request as the one
  built from the configuration without them.
\<close>

theorem deny_responses_have_no_effect:
  assumes "buildEngine compile cfg = Inr e" and "buildEngine compile (without_deny_responses cfg) = Inr e'"
  shows "ProcessUsage e ctx d reports = ProcessUsage e' ctx d reports"
proof -
  have els: "elems (CE_Policies (EngineOf (without_deny_responses cfg))) =
      map (\<lambda>pc. pc\<lparr>PC_DenyResponse := None\<rparr>) (elems (CE_Policies (EngineOf cfg)))"
    by (cases "CE_Policies (EngineOf cfg)") (simp_all add: without_deny_responses_def)
  have kept: "ReportingInterval (EngineOf (without_deny_responses cfg)) = ReportingInterval (EngineOf cfg)"
      "DefaultTokensPerFill (EngineOf (without_deny_responses cfg)) = DefaultTokensPerFill (EngineOf cfg)"
    by (simp_all add: without_deny_responses_def)
  have "buildStrategy (pc\<lparr>PC_DenyResponse := None\<rparr>) i = buildStrategy pc i" for pc i
    by (simp add: buildStrategy_def)
  then have "configured_assignment compile (without_deny_responses cfg) = configured_assignment compile cfg"
    by (simp add: configured_assignment_def els find_map comp_def defaultTTL_def defaultStrategy_def kept fun_eq_iff
        split: option.split)
  then show ?thesis
    using quota_engine.ProcessUsage_eq [OF buildEngine_quota_engine [OF assms(1)]]
      quota_engine.ProcessUsage_eq [OF buildEngine_quota_engine [OF assms(2)]] by simp
qed

end
