(* ===== verification/Watcher.thy ===== *)
theory Watcher
  imports Config
begin

text \<open>
  The configuration watcher (\<open>src/internal/config/watcher.go\<close>): the start of the watch, the loop over
  file events with its debounce timer, the reload goroutines the timer starts, the buffered
  channel of new configurations, and shutdown. The file changes and time passes in explicit
  steps. \<open>fsnotify\<close> is a parameter; of it the model uses what its documentation says: a watch on a
  file reports writes in place, and it is lost when the file is replaced by another one.
\<close>

section \<open>State\<close>

record Watcher =
  path :: string
  debounce :: duration

definition NewWatcher :: "string \<Rightarrow> Watcher" where
  "NewWatcher p = \<lparr>path = p, debounce = 500 * Millisecond\<rparr>"

text \<open>What the two calls into \<open>fsnotify\<close> at the start return.\<close>

record fsnotify =
  fsnotify_NewWatcher :: "go_error option"
  fsnotify_Add :: "string \<Rightarrow> go_error option"

text \<open>The kinds of file events, as \<open>event.Has\<close> distinguishes them.\<close>

datatype fs_op = OpWrite | OpCreate | OpOther

text \<open>Where a goroutine running \<open>reload\<close> stands: before \<open>Load\<close>, \<open>fsw.Remove\<close>, \<open>fsw.Add\<close>, the send.\<close>

datatype reload_pc = Loading | Removing Config | Adding Config | Sending Config

record watch_state =
  now :: int
  timer :: "int option"
  fileEnv :: load_env
  contents :: "load_env list"
  watching :: bool
  events :: "fs_op list"
  reloaders :: "reload_pc list"
  chan :: "Config list"
  chanClosed :: bool
  ctxDone :: bool
  received :: "Config list"
  reloads :: "int list"
  unread :: bool
  panicked :: bool

text \<open>
  \<open>timer\<close> is the deadline of the pending timer, \<open>fileEnv\<close> what \<open>Load\<close> reads at the moment, \<open>contents\<close>
  all it could have read since the start, \<open>watching\<close> whether \<open>fsw\<close> has a watch on the file, \<open>events\<close> what \<open>fsw.Events\<close> holds, \<open>received\<close> what the
  reader of the channel got, \<open>reloads\<close> the times at which a timer fired. \<open>unread\<close> records that a
  reported change has not been followed by a \<open>Load\<close>.
\<close>

definition watch_start :: "load_env \<Rightarrow> watch_state" where
  "watch_start env = \<lparr>now = 0, timer = None, fileEnv = env, contents = [env], watching = True, events = [], reloaders = [],
     chan = [], chanClosed = False, ctxDone = False, received = [], reloads = [], unread = False, panicked = False\<rparr>"

definition Watch :: "fsnotify \<Rightarrow> load_env \<Rightarrow> Watcher \<Rightarrow> go_error + watch_state" where
  "Watch fs env w =
     (case fsnotify_NewWatcher fs of
        Some e \<Rightarrow> Inl e
      | None \<Rightarrow>
          (case fsnotify_Add fs (path w) of
             Some e \<Rightarrow> Inl e
           | None \<Rightarrow> Inr (watch_start env)))"

section \<open>Steps\<close>

definition reloads_on :: "fs_op \<Rightarrow> bool" where
  "reloads_on op \<longleftrightarrow> op = OpWrite \<or> op = OpCreate"

text \<open>The file is written in place, or replaced by a new file under the same name.\<close>

definition write_file :: "fs_op \<Rightarrow> load_env \<Rightarrow> watch_state \<Rightarrow> watch_state" where
  "write_file op env s =
     s\<lparr>fileEnv := env, contents := contents s @ [env],
       events := events s @ (if watching s then [op] else []), unread := unread s \<or> watching s\<rparr>"

definition replace_file :: "load_env \<Rightarrow> watch_state \<Rightarrow> watch_state" where
  "replace_file env s =
     s\<lparr>fileEnv := env, contents := contents s @ [env], watching := False,
       events := events s @ (if watching s then [OpOther] else [])\<rparr>"

text \<open>An event from \<open>fsw.Events\<close>: other operations are skipped, the rest reset the timer.\<close>

definition on_event :: "Watcher \<Rightarrow> fs_op \<Rightarrow> watch_state \<Rightarrow> watch_state" where
  "on_event w op s = (if \<not> reloads_on op then s else s\<lparr>timer := Some (now s + sint (debounce w))\<rparr>)"

text \<open>The timer fires and starts \<open>reload\<close> in a goroutine of its own.\<close>

definition fire :: "watch_state \<Rightarrow> watch_state" where
  "fire s = s\<lparr>timer := None, reloads := reloads s @ [now s], reloaders := reloaders s @ [Loading]\<rparr>"

text \<open>
  One step of \<open>reload\<close>. It gives up when \<open>Load\<close> fails; the result \<open>added\<close> of \<open>fsw.Add\<close> is only logged;
  a send on the closed channel panics.
\<close>

definition reload_load :: "Watcher \<Rightarrow> watch_state \<Rightarrow> reload_pc option" where
  "reload_load w s = (case Load (fileEnv s) (path w) of Inl e \<Rightarrow> None | Inr cfg \<Rightarrow> Some (Removing cfg))"

definition put_reloader :: "reload_pc list \<Rightarrow> reload_pc option \<Rightarrow> reload_pc list \<Rightarrow> watch_state \<Rightarrow> watch_state" where
  "put_reloader xs r ys s = s\<lparr>reloaders := xs @ (case r of None \<Rightarrow> [] | Some pc \<Rightarrow> [pc]) @ ys\<rparr>"

inductive watch_step :: "Watcher \<Rightarrow> watch_state \<Rightarrow> watch_state \<Rightarrow> bool" for w where
  watch_tick: "0 \<le> d \<Longrightarrow> \<not> panicked s \<Longrightarrow> watch_step w s (s\<lparr>now := now s + d\<rparr>)"
| watch_write: "reloads_on op \<Longrightarrow> \<not> panicked s \<Longrightarrow>
    watch_step w s (write_file op env s)"
| watch_replace: "\<not> panicked s \<Longrightarrow>
    watch_step w s (replace_file env s)"
| watch_event: "events s = op # ops \<Longrightarrow> \<not> chanClosed s \<Longrightarrow> \<not> panicked s \<Longrightarrow>
    watch_step w s (on_event w op (s\<lparr>events := ops\<rparr>))"
| watch_fire: "timer s = Some dl \<Longrightarrow> dl \<le> now s \<Longrightarrow> \<not> panicked s \<Longrightarrow> watch_step w s (fire s)"
| watch_load: "reloaders s = xs @ Loading # ys \<Longrightarrow> \<not> panicked s \<Longrightarrow>
    watch_step w s ((put_reloader xs (reload_load w s) ys s)\<lparr>unread := False\<rparr>)"
| watch_remove: "reloaders s = xs @ Removing cfg # ys \<Longrightarrow> \<not> panicked s \<Longrightarrow>
    watch_step w s ((put_reloader xs (Some (Adding cfg)) ys s)\<lparr>watching := False\<rparr>)"
| watch_add: "reloaders s = xs @ Adding cfg # ys \<Longrightarrow> (chanClosed s \<longrightarrow> \<not> added) \<Longrightarrow> \<not> panicked s \<Longrightarrow>
    watch_step w s ((put_reloader xs (Some (Sending cfg)) ys s)\<lparr>watching := added \<or> watching s\<rparr>)"
| watch_send: "reloaders s = xs @ Sending cfg # ys \<Longrightarrow> \<not> chanClosed s \<Longrightarrow> length (chan s) < 1 \<Longrightarrow> \<not> panicked s \<Longrightarrow>
    watch_step w s ((put_reloader xs None ys s)\<lparr>chan := chan s @ [cfg]\<rparr>)"
| watch_give_up: "reloaders s = xs @ Sending cfg # ys \<Longrightarrow> ctxDone s \<Longrightarrow> \<not> panicked s \<Longrightarrow>
    watch_step w s (put_reloader xs None ys s)"
| watch_send_closed: "reloaders s = xs @ Sending cfg # ys \<Longrightarrow> chanClosed s \<Longrightarrow> \<not> panicked s \<Longrightarrow>
    watch_step w s ((put_reloader xs None ys s)\<lparr>panicked := True\<rparr>)"
| watch_receive: "chan s = cfg # cs \<Longrightarrow> \<not> panicked s \<Longrightarrow>
    watch_step w s (s\<lparr>chan := cs, received := received s @ [cfg]\<rparr>)"
| watch_cancel: "\<not> panicked s \<Longrightarrow> watch_step w s (s\<lparr>ctxDone := True\<rparr>)"
| watch_exit: "ctxDone s \<Longrightarrow> \<not> chanClosed s \<Longrightarrow> \<not> panicked s \<Longrightarrow>
    watch_step w s (s\<lparr>timer := None, chanClosed := True, watching := False\<rparr>)"

abbreviation watch_steps :: "Watcher \<Rightarrow> watch_state \<Rightarrow> watch_state \<Rightarrow> bool" where
  "watch_steps w \<equiv> rtranclp (watch_step w)"

section \<open>Safety\<close>

fun pc_config :: "reload_pc \<Rightarrow> Config option" where
  "pc_config Loading = None"
| "pc_config (Removing cfg) = Some cfg"
| "pc_config (Adding cfg) = Some cfg"
| "pc_config (Sending cfg) = Some cfg"

text \<open>A configuration that \<open>Load\<close> gave for a content the file had.\<close>

definition was_loaded :: "Watcher \<Rightarrow> watch_state \<Rightarrow> Config \<Rightarrow> bool" where
  "was_loaded w s cfg \<longleftrightarrow> (\<exists>env \<in> set (contents s). Load env (path w) = Inr cfg)"

definition watch_inv :: "Watcher \<Rightarrow> watch_state \<Rightarrow> bool" where
  "watch_inv w s \<longleftrightarrow>
     fileEnv s \<in> set (contents s)
     \<and> (\<forall>cfg \<in> set (chan s @ received s). was_loaded w s cfg)
     \<and> (\<forall>pc \<in> set (reloaders s). \<forall>cfg. pc_config pc = Some cfg \<longrightarrow> was_loaded w s cfg)
     \<and> length (chan s) \<le> 1
     \<and> (chanClosed s \<or> panicked s \<longrightarrow> ctxDone s)
     \<and> sorted_wrt (\<lambda>a b. a + sint (debounce w) \<le> b) (reloads s)
     \<and> (\<forall>t \<in> set (reloads s). t \<le> now s \<and> (\<forall>dl. timer s = Some dl \<longrightarrow> t + sint (debounce w) \<le> dl))
     \<and> (unread s \<longrightarrow> (\<exists>op \<in> set (events s). reloads_on op) \<or> timer s \<noteq> None \<or> Loading \<in> set (reloaders s) \<or> chanClosed s)"

lemma watch_inv_start: "watch_inv w (watch_start env)"
  by (simp add: watch_inv_def watch_start_def)

lemma watch_inv_write: "watch_inv w s \<Longrightarrow> reloads_on op \<Longrightarrow> watch_inv w (write_file op env s)"
  by (auto simp: watch_inv_def write_file_def was_loaded_def)

lemma watch_inv_replace: "watch_inv w s \<Longrightarrow> watch_inv w (replace_file env s)"
  by (auto simp: watch_inv_def replace_file_def was_loaded_def)

lemma watch_inv_event:
  "watch_inv w s \<Longrightarrow> events s = op # ops \<Longrightarrow> 0 \<le> sint (debounce w) \<Longrightarrow> watch_inv w (on_event w op (s\<lparr>events := ops\<rparr>))"
  by (auto simp: watch_inv_def on_event_def was_loaded_def)

lemma watch_inv_fire: "watch_inv w s \<Longrightarrow> timer s = Some dl \<Longrightarrow> dl \<le> now s \<Longrightarrow> watch_inv w (fire s)"
  by (fastforce simp: watch_inv_def fire_def was_loaded_def sorted_wrt_append)

lemma watch_inv_reloader:
  assumes "watch_inv w s" and "reloaders s = xs @ pc # ys" and "pc = Loading \<longrightarrow> r = reload_load w s"
    and "pc \<noteq> Loading \<longrightarrow> (\<forall>pc'. r = Some pc' \<longrightarrow> pc_config pc' = pc_config pc)"
    and "\<forall>pc'. r = Some pc' \<longrightarrow> pc' \<noteq> Loading"
  shows "watch_inv w ((put_reloader xs r ys s)\<lparr>unread := unread s \<and> pc \<noteq> Loading, watching := b\<rparr>)"
proof -
  have "was_loaded w s cfg" if "r = Some pc'" "pc_config pc' = Some cfg" for pc' cfg
  proof (cases "pc = Loading")
    case True
    then show ?thesis using assms(1,3) that by (auto simp: reload_load_def watch_inv_def was_loaded_def split: sum.splits)
  next
    case False
    then show ?thesis using assms(1,2,4) that by (fastforce simp: watch_inv_def)
  qed
  then show ?thesis
    using assms(1,2,5) by (cases r) (auto simp: watch_inv_def put_reloader_def was_loaded_def)
qed

lemma watch_inv_step:
  assumes "watch_step w s s'" and inv: "watch_inv w s" and "0 \<le> sint (debounce w)"
  shows "watch_inv w s'"
  using assms(1)
proof cases
  case (watch_write op env)
  then show ?thesis using watch_inv_write inv by simp
next
  case (watch_replace env)
  then show ?thesis using watch_inv_replace inv by simp
next
  case (watch_event op ops)
  then show ?thesis using watch_inv_event inv assms(3) by simp
next
  case (watch_fire dl)
  then show ?thesis using watch_inv_fire inv by simp
next
  case (watch_load xs ys)
  then show ?thesis using watch_inv_reloader [OF inv, of xs Loading ys "reload_load w s" "watching s"]
    by (auto simp: reload_load_def put_reloader_def split: sum.splits)
next
  case (watch_remove xs cfg ys)
  then show ?thesis using watch_inv_reloader [OF inv, of xs "Removing cfg" ys "Some (Adding cfg)" False]
    by (simp add: put_reloader_def)
next
  case (watch_add xs cfg ys added)
  then show ?thesis using watch_inv_reloader [OF inv, of xs "Adding cfg" ys "Some (Sending cfg)" "added \<or> watching s"]
    by (simp add: put_reloader_def)
next
  case (watch_send xs cfg ys)
  then have "was_loaded w s cfg" using inv by (fastforce simp: watch_inv_def)
  then show ?thesis using watch_send watch_inv_reloader [OF inv, of xs "Sending cfg" ys None "watching s"]
    by (auto simp: put_reloader_def watch_inv_def was_loaded_def)
next
  case (watch_give_up xs cfg ys)
  then show ?thesis using watch_inv_reloader [OF inv, of xs "Sending cfg" ys None "watching s"]
    by (simp add: put_reloader_def)
next
  case (watch_send_closed xs cfg ys)
  then show ?thesis using inv watch_inv_reloader [OF inv, of xs "Sending cfg" ys None "watching s"]
    by (auto simp: put_reloader_def watch_inv_def was_loaded_def)
qed (use inv in \<open>auto simp: watch_inv_def was_loaded_def\<close>)

lemma watch_inv_steps: "watch_steps w s s' \<Longrightarrow> watch_inv w s \<Longrightarrow> 0 \<le> sint (debounce w) \<Longrightarrow> watch_inv w s'"
  by (induction rule: rtranclp_induct) (auto intro: watch_inv_step)

lemma Watch_started: "Watch fs env w = Inr s \<Longrightarrow> s = watch_start env"
  by (simp add: Watch_def split: option.splits)

lemma NewWatcher_debounce [simp]: "sint (debounce (NewWatcher p)) = 500000000" "path (NewWatcher p) = p"
  by (simp_all add: NewWatcher_def Millisecond_def)

lemma watch_inv_run: "Watch fs env (NewWatcher p) = Inr start \<Longrightarrow> watch_steps (NewWatcher p) start s \<Longrightarrow> watch_inv (NewWatcher p) s"
  using watch_inv_steps [of "NewWatcher p" start s] by (auto dest: Watch_started simp: watch_inv_start)

text \<open>
  C24. The watcher delivers only configurations loaded from a content the file really had, keeps
  at most one undelivered configuration in its channel, starts reloads at least the debounce
  interval of 500 milliseconds apart however many file events arrive and however late timers
  run, and cannot panic before its context is cancelled.
\<close>

theorem watcher_safe:
  assumes "Watch fs env (NewWatcher p) = Inr start" and "watch_steps (NewWatcher p) start s"
  shows "(\<forall>cfg \<in> set (received s). \<exists>c \<in> set (contents s). Load c p = Inr cfg) \<and> length (chan s) \<le> 1
    \<and> sorted_wrt (\<lambda>a b. a + 500000000 \<le> b) (reloads s) \<and> (panicked s \<longrightarrow> ctxDone s)"
  using watch_inv_run [OF assms] by (auto simp: watch_inv_def was_loaded_def)

text \<open>Runs in which a write is reported, the timer fires and the reload gets as far as its send.\<close>

definition example_loaded :: Config where
  "example_loaded = (case Load (env_with [] []) [] of Inr cfg \<Rightarrow> cfg | Inl e \<Rightarrow> default_config)"

lemma example_loads: "Load (env_with [] []) [] = Inr example_loaded"
  by (simp add: example_loaded_def Load_def load_file_def)

definition idle :: "watch_state \<Rightarrow> bool" where
  "idle s \<longleftrightarrow> events s = [] \<and> timer s = None \<and> reloaders s = [] \<and> chan s = []"

definition after_write :: "watch_state \<Rightarrow> load_env \<Rightarrow> Config \<Rightarrow> watch_state" where
  "after_write s new cfg =
     s\<lparr>now := now s + 500000000, timer := None, fileEnv := new, contents := contents s @ [new], watching := True,
       events := [], reloaders := [Sending cfg], reloads := reloads s @ [now s + 500000000], unread := False\<rparr>"

definition watch_example :: watch_state where
  "watch_example = after_write (watch_start (env_with [] [])) (env_with [] []) example_loaded"

definition some_fsnotify :: fsnotify where
  "some_fsnotify = \<lparr>fsnotify_NewWatcher = None, fsnotify_Add = (\<lambda>_. None)\<rparr>"

lemma some_fsnotify_starts: "Watch some_fsnotify env (NewWatcher p) = Inr (watch_start env)"
  by (simp add: Watch_def some_fsnotify_def)

lemma after_write_run:
  assumes "Load new p = Inr cfg" and "idle s" and "watching s" and "\<not> chanClosed s" and "\<not> panicked s"
  shows "watch_steps (NewWatcher p) s (after_write s new cfg)"
proof (cases s)
  case [simp]: (fields n tm fe cs wa ev rl ch cl cd rc rs un pa)
  let ?w = "NewWatcher p" and ?t = "now s + 500000000"
  let ?b = "s\<lparr>fileEnv := new, contents := contents s @ [new], unread := True\<rparr>"
  let ?f = "?b\<lparr>now := ?t, timer := None, events := [], reloads := reloads s @ [?t]\<rparr>"
  have [simp]: "tm = None" "ev = []" "rl = []" "ch = []" "wa" "\<not> cl" "\<not> pa" using assms(2-5) by (simp_all add: idle_def)
  have "watch_step ?w s (?b\<lparr>events := [OpWrite]\<rparr>)"
    using watch_write [of OpWrite s ?w new] by (simp add: reloads_on_def write_file_def)
  moreover have "watch_step ?w (?b\<lparr>events := [OpWrite]\<rparr>) (?b\<lparr>timer := Some ?t, events := []\<rparr>)"
    using watch_event [of "?b\<lparr>events := [OpWrite]\<rparr>" OpWrite "[]" ?w] by (simp add: on_event_def reloads_on_def)
  moreover have "watch_step ?w (?b\<lparr>timer := Some ?t, events := []\<rparr>) (?b\<lparr>now := ?t, timer := Some ?t, events := []\<rparr>)"
    using watch_tick [of 500000000 "?b\<lparr>timer := Some ?t, events := []\<rparr>" ?w] by simp
  moreover have "watch_step ?w (?b\<lparr>now := ?t, timer := Some ?t, events := []\<rparr>) (?f\<lparr>reloaders := [Loading]\<rparr>)"
    using watch_fire [of "?b\<lparr>now := ?t, timer := Some ?t, events := []\<rparr>" ?t ?w] by (simp add: fire_def)
  moreover have "watch_step ?w (?f\<lparr>reloaders := [Loading]\<rparr>) (?f\<lparr>reloaders := [Removing cfg], unread := False\<rparr>)"
    using watch_load [of "?f\<lparr>reloaders := [Loading]\<rparr>" "[]" "[]" ?w] by (simp add: reload_load_def put_reloader_def assms(1))
  moreover have "watch_step ?w (?f\<lparr>reloaders := [Removing cfg], unread := False\<rparr>) (?f\<lparr>reloaders := [Adding cfg], unread := False, watching := False\<rparr>)"
    using watch_remove [of "?f\<lparr>reloaders := [Removing cfg], unread := False\<rparr>" "[]" cfg "[]" ?w] by (simp add: put_reloader_def)
  moreover have "watch_step ?w (?f\<lparr>reloaders := [Adding cfg], unread := False, watching := False\<rparr>) (after_write s new cfg)"
    using watch_add [of "?f\<lparr>reloaders := [Adding cfg], unread := False, watching := False\<rparr>" "[]" cfg "[]" True ?w]
    by (simp add: put_reloader_def after_write_def)
  ultimately show ?thesis by (meson r_into_rtranclp rtranclp_trans)
qed

lemma watch_example_run: "watch_steps (NewWatcher []) (watch_start (env_with [] [])) watch_example"
  unfolding watch_example_def by (rule after_write_run [OF example_loads]) (simp_all add: watch_start_def idle_def)

theorem watcher_safe_witness:
  "watch_steps (NewWatcher []) (watch_start (env_with [] [])) watch_example \<and> reloads watch_example = [500000000]
   \<and> sorted_wrt (\<lambda>a b. a + 500000000 \<le> b) (reloads watch_example)"
proof -
  have "reloads watch_example = [500000000]" by (simp add: watch_example_def after_write_def watch_start_def)
  then show ?thesis
    using watch_example_run watcher_safe [OF some_fsnotify_starts watch_example_run] by blast
qed

section \<open>Every reported change is read\<close>

text \<open>How much the watcher and its reader still have to do.\<close>

fun pc_work :: "reload_pc \<Rightarrow> nat" where
  "pc_work Loading = 5"
| "pc_work (Removing cfg) = 4"
| "pc_work (Adding cfg) = 3"
| "pc_work (Sending cfg) = 2"

definition watch_work :: "watch_state \<Rightarrow> nat" where
  "watch_work s = 7 * length (events s) + (if timer s = None then 0 else 6)
     + (\<Sum>pc\<leftarrow>reloaders s. pc_work pc) + length (chan s)"

definition settling :: "watch_state \<Rightarrow> watch_state \<Rightarrow> bool" where
  "settling s s' \<longleftrightarrow> watch_work s' < watch_work s \<and> \<not> panicked s' \<and> \<not> chanClosed s' \<and> fileEnv s' = fileEnv s"

lemma settle_reloader:
  assumes "reloaders s = pc # ys" and "chan s = []" and "\<not> panicked s" "\<not> chanClosed s"
  shows "\<exists>s'. watch_step w s s' \<and> settling s s'"
proof (cases pc)
  case Loading
  have "watch_step w s ((put_reloader [] (reload_load w s) ys s)\<lparr>unread := False\<rparr>)"
    using assms Loading by (intro watch_load) simp_all
  then show ?thesis using assms Loading
    by (intro exI conjI) (auto simp: settling_def watch_work_def put_reloader_def reload_load_def split: sum.split)
next
  case (Removing cfg)
  then have "watch_step w s ((put_reloader [] (Some (Adding cfg)) ys s)\<lparr>watching := False\<rparr>)"
    using assms by (intro watch_remove) simp_all
  then show ?thesis using assms Removing by (intro exI conjI) (auto simp: settling_def watch_work_def put_reloader_def)
next
  case (Adding cfg)
  then have "watch_step w s ((put_reloader [] (Some (Sending cfg)) ys s)\<lparr>watching := True \<or> watching s\<rparr>)"
    using assms by (intro watch_add) simp_all
  then show ?thesis using assms Adding by (intro exI conjI) (auto simp: settling_def watch_work_def put_reloader_def)
next
  case (Sending cfg)
  then have "watch_step w s ((put_reloader [] None ys s)\<lparr>chan := chan s @ [cfg]\<rparr>)"
    using assms by (intro watch_send) simp_all
  then show ?thesis using assms Sending by (intro exI conjI) (auto simp: settling_def watch_work_def put_reloader_def)
qed

lemma settle_step:
  assumes "\<not> idle s" and live: "\<not> panicked s" "\<not> chanClosed s"
  shows "\<exists>s'. watch_steps w s s' \<and> settling s s'"
proof -
  consider (chan) cfg cs where "chan s = cfg # cs" | (event) op ops where "events s = op # ops"
    | (timer) dl where "timer s = Some dl" | (reload) pc ys where "reloaders s = pc # ys" "chan s = []"
    using assms(1) by (cases "chan s"; cases "events s"; cases "timer s"; cases "reloaders s") (auto simp: idle_def)
  then show ?thesis
  proof cases
    case (chan cfg cs)
    then show ?thesis using live r_into_rtranclp [of "watch_step w", OF watch_receive [OF chan live(1)]]
      by (intro exI conjI) (auto simp: settling_def watch_work_def)
  next
    case (event op ops)
    then have "settling s (on_event w op (s\<lparr>events := ops\<rparr>))"
      using live by (cases "reloads_on op") (simp_all add: settling_def watch_work_def on_event_def)
    then show ?thesis using r_into_rtranclp [of "watch_step w", OF watch_event [OF event live(2,1)]] by blast
  next
    case (timer dl)
    let ?t = "s\<lparr>now := now s + max 0 (dl - now s)\<rparr>"
    have "watch_step w s ?t" using live(1) by (intro watch_tick) simp_all
    moreover have "watch_step w ?t (fire ?t)" using timer live(1) by (intro watch_fire [of _ dl]) simp_all
    ultimately have "watch_steps w s (fire ?t)" by simp
    then show ?thesis using timer live by (intro exI conjI) (auto simp: settling_def watch_work_def fire_def)
  next
    case (reload pc ys)
    then show ?thesis using settle_reloader [OF reload live, of w] by blast
  qed
qed

lemma settles:
  "\<not> panicked s \<Longrightarrow> \<not> chanClosed s \<Longrightarrow>
    \<exists>s'. watch_steps w s s' \<and> idle s' \<and> \<not> chanClosed s' \<and> fileEnv s' = fileEnv s"
proof (induction "watch_work s" arbitrary: s rule: less_induct)
  case less
  show ?case
  proof (cases "idle s")
    case False
    then obtain s1 where s1: "watch_steps w s s1" "settling s s1" using settle_step less.prems by blast
    then obtain s' where "watch_steps w s1 s'" "idle s'" "\<not> chanClosed s'" "fileEnv s' = fileEnv s1"
      using less.hyps [of s1] by (auto simp: settling_def)
    then show ?thesis using s1 by (auto simp: settling_def intro: rtranclp_trans)
  qed (use less.prems in blast)
qed



section \<open>Shutdown and replaced files\<close>

text \<open>
  Shutdown races with a reload. The loop closes the channel when the context is cancelled
  while a reload goroutine may still be about to send; its \<open>select\<close> can pick the send on the
  closed channel, which panics.
\<close>

theorem watcher_may_panic_on_shutdown:
  "\<exists>s. watch_steps (NewWatcher []) (watch_start (env_with [] [])) s \<and> panicked s"
proof -
  let ?w = "NewWatcher []"
  let ?c = "watch_example\<lparr>ctxDone := True\<rparr>"
  let ?x = "watch_example\<lparr>ctxDone := True, timer := None, chanClosed := True, watching := False\<rparr>"
  have live: "\<not> panicked watch_example" "\<not> chanClosed watch_example" "reloaders watch_example = [] @ Sending example_loaded # []"
    by (simp_all add: watch_example_def after_write_def watch_start_def)
  have "watch_step ?w watch_example ?c" using watch_cancel live by blast
  moreover have "watch_step ?w ?c ?x" using watch_exit [of ?c ?w] live by simp
  moreover have "watch_step ?w ?x ((put_reloader [] None [] ?x)\<lparr>panicked := True\<rparr>)"
    using live by (intro watch_send_closed) simp_all
  ultimately have "watch_steps ?w (watch_start (env_with [] [])) ((put_reloader [] None [] ?x)\<lparr>panicked := True\<rparr>)"
    using watch_example_run by (meson r_into_rtranclp rtranclp_trans)
  then show ?thesis by (intro exI conjI, assumption) simp
qed

text \<open>No watch, no timer, nothing reported that starts one, and no reload that will watch again.\<close>

definition watch_lost :: "watch_state \<Rightarrow> bool" where
  "watch_lost s \<longleftrightarrow> \<not> watching s \<and> timer s = None \<and> (\<forall>op \<in> set (events s). \<not> reloads_on op) \<and> reloaders s = []"

lemma watch_lost_step:
  assumes "watch_step w s s'" and "watch_lost s"
  shows "watch_lost s' \<and> reloads s' = reloads s \<and> received s' @ chan s' = received s @ chan s \<and> (chan s = [] \<longrightarrow> chan s' = [])"
  using assms
  by cases (auto simp: watch_lost_def write_file_def replace_file_def on_event_def reloads_on_def put_reloader_def split: if_splits)

lemma watch_lost_steps:
  "watch_steps w s s' \<Longrightarrow> watch_lost s \<Longrightarrow>
    watch_lost s' \<and> reloads s' = reloads s \<and> received s' @ chan s' = received s @ chan s \<and> (chan s = [] \<longrightarrow> chan s' = [])"
  by (induction rule: rtranclp_induct) (auto dest: watch_lost_step)



end
