(* ===== verification/Tracing.thy ===== *)
theory Tracing
  imports Config
begin

text \<open>
  Tracing setup (\<open>src/internal/tracing/tracing.go\<close>). The OpenTelemetry SDK is a parameter: whether the
  exporter and the resource can be created and what shutting a provider down returns. Its global
  state, which \<open>Init\<close> sets, is explicit: the tracer provider, the propagators, and the exporters
  that have been started and not been shut down.
\<close>

datatype exporter_option = WithEndpoint string | WithInsecureCredentials

record exporter =
  exporterOptions :: "exporter_option list"

record provider =
  batcher :: exporter
  resourceName :: string

record otel_env =
  NewExporter :: "exporter_option list \<Rightarrow> go_error option"
  NewResource :: "string \<Rightarrow> go_error option"
  ShutdownProvider :: "provider \<Rightarrow> go_error option"

record otel_state =
  tracerProvider :: "provider option"
  propagators :: "string list"
  exporters :: "exporter list"

definition otel_initial :: otel_state where
  "otel_initial = \<lparr>tracerProvider = None, propagators = [], exporters = []\<rparr>"

datatype tracing_error = CreatingExporter go_error | CreatingResource go_error

text \<open>The shutdown function \<open>Init\<close> returns: nothing to do, or \<open>tp.Shutdown\<close>.\<close>

datatype shutdown_func = NopShutdown | ProviderShutdown provider

definition exporter_opts :: "TracingConfig \<Rightarrow> exporter_option list" where
  "exporter_opts cfg =
     (if Endpoint cfg \<noteq> [] then [WithEndpoint (Endpoint cfg)] else [])
     @ (if Insecure cfg then [WithInsecureCredentials] else [])"

definition Init :: "otel_env \<Rightarrow> TracingConfig \<Rightarrow> otel_state \<Rightarrow> otel_state \<times> (tracing_error + shutdown_func)" where
  "Init env cfg g =
     (if \<not> Enabled cfg then (g, Inr NopShutdown)
      else
        let opts = exporter_opts cfg; exp = \<lparr>exporterOptions = opts\<rparr>
        in case NewExporter env opts of
             Some e \<Rightarrow> (g, Inl (CreatingExporter e))
           | None \<Rightarrow>
               let g1 = g\<lparr>exporters := exporters g @ [exp]\<rparr>
               in case NewResource env ''rlqs-server'' of
                    Some e \<Rightarrow> (g1, Inl (CreatingResource e))
                  | None \<Rightarrow>
                      let tp = \<lparr>batcher = exp, resourceName = ''rlqs-server''\<rparr>
                      in (g1\<lparr>tracerProvider := Some tp, propagators := [''tracecontext'', ''baggage'']\<rparr>,
                          Inr (ProviderShutdown tp)))"

text \<open>Calling the returned function; the provider stops its exporter also when flushing fails.\<close>

definition run_shutdown :: "otel_env \<Rightarrow> shutdown_func \<Rightarrow> otel_state \<Rightarrow> otel_state \<times> go_error option" where
  "run_shutdown env f g =
     (case f of
        NopShutdown \<Rightarrow> (g, None)
      | ProviderShutdown tp \<Rightarrow> (g\<lparr>exporters := remove1 (batcher tp) (exporters g)\<rparr>, ShutdownProvider env tp))"

text \<open>
  Tracing that starts is shut down completely; tracing that is switched off touches nothing. When
  the resource cannot be created the exporter that was already started is left running.
\<close>

lemma Init_shutdown:
  assumes "Init env cfg g = (g', Inr f)"
  shows "length (exporters (fst (run_shutdown env f g'))) = length (exporters g)" and "\<not> Enabled cfg \<Longrightarrow> g' = g"
  using assms by (auto simp: Init_def run_shutdown_def Let_def length_remove1 split: option.splits if_splits)

lemma Init_error:
  assumes "Init env cfg g = (g', Inl e)"
  shows "Enabled cfg" and "tracerProvider g' = tracerProvider g"
    and "length (exporters g') = length (exporters g) + (case e of CreatingExporter _ \<Rightarrow> 0 | CreatingResource _ \<Rightarrow> 1)"
  using assms by (auto simp: Init_def Let_def split: option.splits if_splits)

lemma Init_starts: "(\<exists>g' f. Init env cfg g = (g', Inr f)) \<longleftrightarrow>
    (Enabled cfg \<longrightarrow> NewExporter env (exporter_opts cfg) = None \<and> NewResource env ''rlqs-server'' = None)"
  by (auto simp: Init_def Let_def split: option.split)

end
