(* ===== verification/Process.thy ===== *)
theory Process
  imports Assembly Watcher Tracing
begin

text \<open>
  The whole process (\<open>src/cmd/rlqs-server/main.go\<close>): \<open>main\<close> from the configuration to the running server,
  with every fatal exit, and then the steps of the running process: clients on the server, the
  configuration watcher, the reload loop that reads its channel, the signal and the shutdown.
  What \<open>main\<close> calls outside the repository is one record of parameters.
\<close>

section \<open>The store behind the interface\<close>

text \<open>
  The \<open>BucketStore\<close> value \<open>main\<close> holds is a Redis store, together with the world its client acts on, or
  an in-memory store; a method call goes to the one it is. Only the in-memory store has \<open>All\<close>.
\<close>

datatype 'w main_store = RunRedis "RedisStorage \<times> 'w" | RunMemory MemoryStorage

definition main_store_ops :: "'w redis_client \<Rightarrow> 'w main_store BucketStore" where
  "main_store_ops c =
     \<lparr>RecordUsage = (\<lambda>ctx d r st.
        case st of
          RunRedis x \<Rightarrow> map_prod RunRedis id (RecordUsage (RedisStorage_store c) ctx d r x)
        | RunMemory m \<Rightarrow> map_prod RunMemory id (RecordUsage MemoryStorage_store ctx d r m)),
      RemoveBucket = (\<lambda>ctx d k st.
        case st of
          RunRedis x \<Rightarrow> map_prod RunRedis id (RemoveBucket (RedisStorage_store c) ctx d k x)
        | RunMemory m \<Rightarrow> map_prod RunMemory id (RemoveBucket MemoryStorage_store ctx d k m))\<rparr>"

definition store_value :: "'w \<Rightarrow> built_store \<Rightarrow> 'w main_store" where
  "store_value w b = (case b of BuiltRedis s \<Rightarrow> RunRedis (s, w) | BuiltMemory m \<Rightarrow> RunMemory m)"

definition main_lister :: "'w main_store \<Rightarrow> ('w main_store \<Rightarrow> (BucketKey, UsageState) gomap) option" where
  "main_lister st =
     (case st of
        RunRedis x \<Rightarrow> None
      | RunMemory m \<Rightarrow> Some (\<lambda>st. case st of RunMemory m \<Rightarrow> MemoryStorage_All m | RunRedis x \<Rightarrow> []))"

definition main_store_ok :: "'w main_store \<Rightarrow> bool" where
  "main_store_ok st = (case st of RunRedis x \<Rightarrow> breaker_inv (fst x) | RunMemory m \<Rightarrow> MemoryStorage_wf m)"

interpretation main_store: fail_open_store "main_store_ops c" for c :: "'w redis_client"
  by unfold_locales
    (simp_all add: main_store_ops_def redis.RecordUsage_ok redis.RemoveBucket_ok memory.RecordUsage_ok memory.RemoveBucket_ok
      split: main_store.split)

interpretation main_store_inv: store_invariant "main_store_ops c" main_store_ok for c :: "'w redis_client"
proof unfold_locales
  fix st :: "'w main_store" and ctx d r k
  assume "main_store_ok st"
  then show "main_store_ok (fst (RecordUsage (main_store_ops c) ctx d r st))"
    and "main_store_ok (fst (RemoveBucket (main_store_ops c) ctx d k st))"
    by (cases st; simp add: main_store_ops_def main_store_ok_def redis_breaker.P_RecordUsage redis_breaker.P_RemoveBucket
        memory_wf.P_RecordUsage memory_wf.P_RemoveBucket del: split_paired_All)+
qed

section \<open>Start\<close>

record 'w main_env =
  envLoad :: load_env
  envOtel :: otel_env
  envTLS :: tls_env
  envPrometheus :: "'w main_store RLQSServer stream_handler \<Rightarrow> 'w main_store RLQSServer stream_handler"
  envListen :: "string \<Rightarrow> go_error option"
  envFsnotify :: fsnotify
  envCompile :: regexp_Compile
  envRedis :: "'w redis_client"
  envWorld :: 'w

datatype fatal =
    FatalConfig go_error
  | FatalTracing tracing_error
  | FatalEngine engine_error
  | FatalClassifier classifier_error
  | FatalTLS tls_error
  | FatalListen go_error

record 'w Running =
  proc :: "'w main_store Process"
  otel :: otel_state
  shutdownTracing :: shutdown_func
  cfgWatch :: "(Watcher \<times> watch_state) option"
  signalled :: bool
  crashed :: "go_panic option"
  exited :: bool

text \<open>A watcher that cannot start only disables hot reload.\<close>

definition start_watch :: "fsnotify \<Rightarrow> load_env \<Rightarrow> string \<Rightarrow> (Watcher \<times> watch_state) option" where
  "start_watch fs env configPath =
     (if configPath \<noteq> [] then
        (let watcher = NewWatcher configPath
         in case Watch fs env watcher of Inl e \<Rightarrow> None | Inr ws \<Rightarrow> Some (watcher, ws))
      else None)"

definition main_start :: "'w main_env \<Rightarrow> string \<Rightarrow> fatal + 'w Running" where
  "main_start env configPath =
     (case Load (envLoad env) configPath of
        Inl e \<Rightarrow> Inl (FatalConfig e)
      | Inr cfg \<Rightarrow>
     (case Init (envOtel env) (TracingOf cfg) otel_initial of
        (g, Inl e) \<Rightarrow> Inl (FatalTracing e)
      | (g, Inr stopTracing) \<Rightarrow>
     (let st = store_value (envWorld env) (buildStore cfg) in
      case buildEngine (envCompile env) cfg of
        Inl e \<Rightarrow> Inl (FatalEngine e)
      | Inr eng \<Rightarrow>
     (case buildDomainClassifier (envCompile env) cfg of
        Inl e \<Rightarrow> Inl (FatalClassifier e)
      | Inr classifier \<Rightarrow>
     (case main_options (envTLS env) (envPrometheus env) cfg of
        Inl e \<Rightarrow> Inl (FatalTLS e)
      | Inr opts \<Rightarrow>
     (let server = server_New (envCompile env) st eng (ServerOf cfg) (Some classifier) opts in
      case envListen env (GRPCAddr (ServerOf cfg)) of
        Some e \<Rightarrow> Inl (FatalListen e)
      | None \<Rightarrow>
          Inr \<lparr>proc = \<lparr>currentCfg = cfg, srv = server, adminHandler = admin_New cfg\<rparr>,
               otel = g, shutdownTracing = stopTracing,
               cfgWatch = start_watch (envFsnotify env) (envLoad env) configPath,
               signalled = False, crashed = None, exited = False\<rparr>))))))"

section \<open>Steps of the running process\<close>

text \<open>What clients do to a serving server; swaps come from the reload loop only.\<close>

inductive client_step :: "'st BucketStore \<Rightarrow> 'st RLQSServer \<Rightarrow> 'st RLQSServer \<Rightarrow> bool" for ops where
  client_open: "client_step ops s (snd (open_stream g s))"
| client_message: "sid \<in> set (streams s) \<Longrightarrow> handleMessage ops sid req s = (s', None) \<Longrightarrow> client_step ops s s'"
| client_failure: "sid \<in> set (streams s) \<Longrightarrow> handleMessage ops sid req s = (s', Some e) \<Longrightarrow>
    client_step ops s (close_stream ops sid s')"
| client_disconnect: "sid \<in> set (streams s) \<Longrightarrow> client_step ops s (close_stream ops sid s)"

definition set_rlqs :: "'w main_store RLQSServer \<Rightarrow> 'w Running \<Rightarrow> 'w Running" where
  "set_rlqs s m = m\<lparr>proc := (proc m)\<lparr>srv := (srv (proc m))\<lparr>rlqsServer := s\<rparr>\<rparr>\<rparr>"

text \<open>The reload loop receives a configuration; a panic in it ends the process.\<close>

definition reload_step :: "regexp_Compile \<Rightarrow> Config \<Rightarrow> 'w Running \<Rightarrow> 'w Running" where
  "reload_step compile cfg m =
     (case hot_reload compile cfg (proc m) of
        Inl p \<Rightarrow> m\<lparr>crashed := Some p\<rparr>
      | Inr (p', log) \<Rightarrow> m\<lparr>proc := p'\<rparr>)"

definition send_on_closed_channel :: go_panic where
  "send_on_closed_channel = ''send on closed channel''"

text \<open>After the signal: shutdown of the servers, then the deferred shutdown of tracing.\<close>

definition main_shutdown :: "otel_env \<Rightarrow> int option \<Rightarrow> int option \<Rightarrow> 'w Running \<Rightarrow> 'w Running" where
  "main_shutdown env metrics_time drain_time m =
     m\<lparr>proc := (proc m)\<lparr>srv := fst (shutdown metrics_time drain_time (srv (proc m)))\<rparr>,
       otel := fst (run_shutdown env (shutdownTracing m) (otel m)), exited := True\<rparr>"

definition alive :: "'w Running \<Rightarrow> bool" where
  "alive m \<longleftrightarrow> crashed m = None \<and> \<not> exited m"

inductive main_step :: "'w main_env \<Rightarrow> 'w Running \<Rightarrow> 'w Running \<Rightarrow> bool" for env where
  main_serve: "alive m \<Longrightarrow> phase (grpcServer (srv (proc m))) = GrpcCreated \<Longrightarrow>
    main_step env m (m\<lparr>proc := (proc m)\<lparr>srv := Serve (srv (proc m))\<rparr>\<rparr>)"
| main_client: "alive m \<Longrightarrow> phase (grpcServer (srv (proc m))) = GrpcServing \<Longrightarrow>
    client_step (main_store_ops (envRedis env)) (rlqs (proc m)) s' \<Longrightarrow> main_step env m (set_rlqs s' m)"
| main_push: "alive m \<Longrightarrow> i < length (pushes (rlqs (proc m))) \<Longrightarrow>
    main_step env m (set_rlqs (run_push i (rlqs (proc m))) m)"
| main_world: "alive m \<Longrightarrow> store (rlqs (proc m)) = RunRedis (r, w) \<Longrightarrow>
    main_step env m (set_rlqs ((rlqs (proc m))\<lparr>store := RunRedis (r, w')\<rparr>) m)"
| main_watch: "alive m \<Longrightarrow> cfgWatch m = Some (w, ws) \<Longrightarrow> watch_step w ws ws' \<Longrightarrow> received ws' = received ws \<Longrightarrow>
    ctxDone ws' = ctxDone ws \<Longrightarrow>
    main_step env m (m\<lparr>cfgWatch := Some (w, ws'), crashed := (if panicked ws' then Some send_on_closed_channel else None)\<rparr>)"
| main_reload: "alive m \<Longrightarrow> cfgWatch m = Some (w, ws) \<Longrightarrow> watch_step w ws ws' \<Longrightarrow> received ws' = received ws @ [cfg] \<Longrightarrow>
    main_step env m ((reload_step (envCompile env) cfg m)\<lparr>cfgWatch := Some (w, ws')\<rparr>)"
| main_signal: "alive m \<Longrightarrow>
    main_step env m (m\<lparr>signalled := True, cfgWatch := map_option (map_prod id (\<lambda>ws. ws\<lparr>ctxDone := True\<rparr>)) (cfgWatch m)\<rparr>)"
| main_exit: "alive m \<Longrightarrow> signalled m \<Longrightarrow> main_step env m (main_shutdown (envOtel env) metrics_time drain_time m)"

abbreviation main_steps :: "'w main_env \<Rightarrow> 'w Running \<Rightarrow> 'w Running \<Rightarrow> bool" where
  "main_steps env \<equiv> rtranclp (main_step env)"

section \<open>Which configurations start\<close>

definition builds :: "regexp_Compile \<Rightarrow> Config \<Rightarrow> bool" where
  "builds compile cfg \<longleftrightarrow> (case buildEngine compile cfg of Inl e \<Rightarrow> False | Inr eng \<Rightarrow> True)"

lemma builds_iff: "builds compile cfg \<longleftrightarrow> (\<exists>e. buildEngine compile cfg = Inr e)"
  by (auto simp: builds_def split: sum.split)

definition tls_loads :: "tls_env \<Rightarrow> TLSConfig \<Rightarrow> bool" where
  "tls_loads env c \<longleftrightarrow> CertFile c \<noteq> [] \<longrightarrow> (case TLSOption env c of Inl e \<Rightarrow> False | Inr tc \<Rightarrow> True)"

definition tracing_starts :: "otel_env \<Rightarrow> TracingConfig \<Rightarrow> bool" where
  "tracing_starts env c \<longleftrightarrow> (Enabled c \<longrightarrow> NewExporter env (exporter_opts c) = None \<and> NewResource env ''rlqs-server'' = None)"

lemma main_options_iff: "(\<exists>opts. main_options env prom cfg = Inr opts) \<longleftrightarrow> tls_loads env (TLS (ServerOf cfg))"
  by (auto simp: main_options_def tls_loads_def Let_def split: sum.splits)

lemma main_options_Inl: "main_options env prom cfg = Inl e \<Longrightarrow> \<not> tls_loads env (TLS (ServerOf cfg))"
  using main_options_iff [of env prom cfg] by auto

lemma main_start_loaded:
  assumes "Load (envLoad env) configPath = Inr cfg"
  shows "main_start env configPath =
    (case snd (Init (envOtel env) (TracingOf cfg) otel_initial) of
       Inl e \<Rightarrow> Inl (FatalTracing e)
     | Inr stop \<Rightarrow>
    (case buildEngine (envCompile env) cfg of
       Inl e \<Rightarrow> Inl (FatalEngine e)
     | Inr eng \<Rightarrow>
    (case main_options (envTLS env) (envPrometheus env) cfg of
       Inl e \<Rightarrow> Inl (FatalTLS e)
     | Inr opts \<Rightarrow>
    (case envListen env (GRPCAddr (ServerOf cfg)) of
       Some e \<Rightarrow> Inl (FatalListen e)
     | None \<Rightarrow> Inr \<lparr>proc = the (start_process (envCompile env) opts (store_value (envWorld env) (buildStore cfg)) cfg),
          otel = fst (Init (envOtel env) (TracingOf cfg) otel_initial), shutdownTracing = stop,
          cfgWatch = start_watch (envFsnotify env) (envLoad env) configPath,
          signalled = False, crashed = None, exited = False\<rparr>))))"
proof (cases "buildEngine (envCompile env) cfg")
  case (Inr eng)
  then obtain c where "buildDomainClassifier (envCompile env) cfg = Inr c" using classifier_builds by blast
  with Inr assms show ?thesis
    by (simp add: main_start_def start_process_def Let_def split: prod.split sum.split option.split)
qed (use assms in \<open>simp add: main_start_def Let_def split: prod.split sum.split\<close>)

text \<open>
  C16. The server starts exactly when its configuration loads, tracing (if enabled) initialises,
  every policy pattern compiles, the certificates (if configured) load and the address can be
  listened on. Then it runs the engine and classifier of that configuration over the configured
  store, and only a failing watcher is tolerated: it disables hot reload. The fatal exit for an
  invalid domain classifier is never taken.
\<close>

theorem main_start_outcome:
  "case Load (envLoad env) configPath of
     Inl e \<Rightarrow> main_start env configPath = Inl (FatalConfig e)
   | Inr cfg \<Rightarrow>
       if tracing_starts (envOtel env) (TracingOf cfg) \<and> builds (envCompile env) cfg
         \<and> tls_loads (envTLS env) (TLS (ServerOf cfg)) \<and> envListen env (GRPCAddr (ServerOf cfg)) = None
       then \<exists>m opts p. main_start env configPath = Inr m \<and> proc m = p
         \<and> start_process (envCompile env) opts (store_value (envWorld env) (buildStore cfg)) cfg = Some p
         \<and> main_options (envTLS env) (envPrometheus env) cfg = Inr opts
         \<and> (cfgWatch m = None \<longleftrightarrow> configPath = [] \<or> fsnotify_NewWatcher (envFsnotify env) \<noteq> None
              \<or> fsnotify_Add (envFsnotify env) configPath \<noteq> None)
       else \<exists>e. main_start env configPath = Inl e \<and> (\<forall>c. e \<noteq> FatalClassifier c)"
proof (cases "Load (envLoad env) configPath")
  case (Inr cfg)
  have tracing: "(\<exists>stop. snd (Init (envOtel env) (TracingOf cfg) otel_initial) = Inr stop) \<longleftrightarrow> tracing_starts (envOtel env) (TracingOf cfg)"
    using Init_starts [of "envOtel env" "TracingOf cfg" otel_initial] by (auto simp: tracing_starts_def prod_eq_iff)
  have watch: "start_watch (envFsnotify env) (envLoad env) configPath = None \<longleftrightarrow>
      configPath = [] \<or> fsnotify_NewWatcher (envFsnotify env) \<noteq> None \<or> fsnotify_Add (envFsnotify env) configPath \<noteq> None"
    by (auto simp: start_watch_def Watch_def Let_def split: option.split)
  have started: "\<exists>p. start_process (envCompile env) opts st cfg = Some p" if "builds (envCompile env) cfg" for opts st
    using that classifier_builds [of "envCompile env" cfg] by (auto simp: builds_iff start_process_def)
  show ?thesis
  proof (cases "tracing_starts (envOtel env) (TracingOf cfg) \<and> builds (envCompile env) cfg
      \<and> tls_loads (envTLS env) (TLS (ServerOf cfg)) \<and> envListen env (GRPCAddr (ServerOf cfg)) = None")
    case True
    then obtain stop eng opts where "snd (Init (envOtel env) (TracingOf cfg) otel_initial) = Inr stop"
        "buildEngine (envCompile env) cfg = Inr eng" "main_options (envTLS env) (envPrometheus env) cfg = Inr opts"
      using tracing main_options_iff [of "envTLS env" "envPrometheus env" cfg] by (auto simp: builds_iff)
    then show ?thesis using True Inr started [of opts "store_value (envWorld env) (buildStore cfg)"] main_start_loaded [OF Inr] watch
      by auto
  next
    case False
    then show ?thesis using Inr main_start_loaded [OF Inr] tracing main_options_iff [of "envTLS env" "envPrometheus env" cfg]
      by (auto simp: builds_iff split: sum.splits option.splits)
  qed
qed (simp add: main_start_def)

section \<open>What every run of the process keeps\<close>

lemma client_step_server: "client_step ops s s' \<Longrightarrow> server_step ops s s'"
  by (erule client_step.cases) (auto intro: server_step.intros)

lemma cleanup_keys_engine: "engine (cleanup_keys ops d label ks s) = engine s"
  by (induction ks arbitrary: s) (simp_all add: release_ref_def dec_active_buckets_def upd_metrics_def Let_def split_beta)

lemma close_stream_engine: "engine (close_stream ops sid s) = engine s"
  by (simp add: close_stream_def cleanupStream_def upd_metrics_def Let_def cleanup_keys_engine)

lemma client_step_engine:
  assumes "client_step ops s s'"
  shows "engine s' = engine s"
  using assms
proof cases
  case (client_message sid req)
  then show ?thesis using keeps_handleMessage [of sid s ops req] by (simp add: keeps_def)
next
  case (client_failure sid req t e)
  then show ?thesis using keeps_handleMessage [of sid s ops req] by (simp add: keeps_def close_stream_engine)
qed (simp_all add: open_stream_def upd_metrics_def Let_def close_stream_engine)

lemma push_stream_classifier: "domainClassifier (push_stream e sid s) = domainClassifier s"
  by (simp add: push_stream_def Let_def add_assignments_def upd_metrics_def send_response_def upd_stream_def split: sum.split option.split)

lemma push_fold_classifier: "domainClassifier (fold (push_stream e) sids s) = domainClassifier s"
  by (induction sids arbitrary: s) (simp_all add: push_stream_classifier)

lemma run_push_engine: "engine (run_push i s) = engine s" "store (run_push i s) = store s"
  "domainClassifier (run_push i s) = domainClassifier s"
  by (simp_all add: run_push_def pushAssignments_def push_fold_classifier)

lemma run_push_server: "i < length (pushes s) \<Longrightarrow> server_step ops s (run_push i s)"
  by (rule server_step.intros)

text \<open>Only the binding of a domain touches the classifier, and \<open>Classify\<close> keeps its invariant.\<close>

lemma release_ref_classifier: "domainClassifier (release_ref ops ctx d key s) = domainClassifier s"
  by (simp add: release_ref_def Let_def split_beta)

lemma track_usages_classifier: "domainClassifier (fst (track_usages ops ctx sid us s)) = domainClassifier s"
proof (induction us arbitrary: s)
  case (Cons u us)
  have "domainClassifier (fst (subscribe sid key bid s)) = domainClassifier s" for key bid
    by (simp add: subscribe_def Let_def upd_stream_def upd_metrics_def)
  then have "domainClassifier (fst (track_usage ops ctx sid u s)) = domainClassifier s"
    by (auto simp: track_usage_def record_report_def split_beta split: option.split prod.split dest!: arg_cong [of _ _ fst])
  moreover obtain s1 x where "track_usage ops ctx sid u s = (s1, x)" by (cases "track_usage ops ctx sid u s")
  moreover obtain s2 y where "track_usages ops ctx sid us s1 = (s2, y)" by (cases "track_usages ops ctx sid us s1")
  ultimately show ?case using Cons.IH [of s1] by (simp split: sum.split)
qed simp

lemma abandon_actions_classifier: "domainClassifier (abandon_actions ops ctx sid as s) = domainClassifier s"
  by (induction as arbitrary: s)
    (simp_all add: abandon_action_def Let_def release_ref_classifier upd_stream_def dec_active_buckets_def upd_metrics_def)

lemma answer_reports_classifier: "domainClassifier (fst (answer_reports ops ctx sid reports s)) = domainClassifier s"
  by (simp add: answer_reports_def Let_def abandon_actions_classifier send_response_def upd_stream_def upd_metrics_def
      add_assignments_def count_reports_def split: sum.split option.split)

lemma bind_domain_classifier: "classifier_inv (domainClassifier s) \<Longrightarrow> classifier_inv (domainClassifier (fst (bind_domain sid req s)))"
  by (simp add: bind_domain_def classifyDomain_def Let_def split_beta upd_stream_def Classify_inv)

lemma handleMessage_classifier:
  assumes "classifier_inv (domainClassifier s)"
  shows "classifier_inv (domainClassifier (fst (handleMessage ops sid req s)))"
proof -
  let ?ctx = "StreamCtx (stream (heap s sid))" and ?us = "GetBucketQuotaUsages req"
  obtain s1 e where b: "bind_domain sid req s = (s1, e)" by (cases "bind_domain sid req s")
  obtain s2 y where t: "track_usages ops ?ctx sid ?us s1 = (s2, y)" by (cases "track_usages ops ?ctx sid ?us s1")
  have "classifier_inv (domainClassifier s1)" "domainClassifier s2 = domainClassifier s1"
    using bind_domain_classifier [OF assms, of sid req] track_usages_classifier [of ops ?ctx sid ?us s1] b t by simp_all
  then show ?thesis using b t answer_reports_classifier [of ops ?ctx sid _ s2]
    by (simp add: handleMessage_def Let_def split: option.split sum.split)
qed

lemma close_stream_classifier: "domainClassifier (close_stream ops sid s) = domainClassifier s"
proof -
  have "domainClassifier (cleanup_keys ops d l ks s) = domainClassifier s" for d l ks s
    by (induction ks arbitrary: s) (simp_all add: release_ref_classifier dec_active_buckets_def upd_metrics_def)
  then show ?thesis by (simp add: close_stream_def cleanupStream_def Let_def upd_metrics_def)
qed

lemma client_step_classifier:
  assumes "client_step ops s s'" and "classifier_inv (domainClassifier s)"
  shows "classifier_inv (domainClassifier s')"
  using assms(1)
proof cases
  case (client_message sid req)
  then show ?thesis using handleMessage_classifier [OF assms(2), of ops sid req] by simp
next
  case (client_failure sid req t e)
  then show ?thesis using handleMessage_classifier [OF assms(2), of ops sid req] by (simp add: close_stream_classifier)
qed (simp_all add: assms(2) open_stream_def Let_def upd_metrics_def close_stream_classifier)

definition serving_ok :: "regexp_Compile \<Rightarrow> 'w main_store Process \<Rightarrow> bool" where
  "serving_ok compile p \<longleftrightarrow> server_inv (rlqs p) \<and> main_store_ok (store (rlqs p)) \<and> engine_current compile p
     \<and> classifier_inv (domainClassifier (rlqs p))"

lemma serving_ok_step:
  assumes "serving_ok compile (proc m)" and "server_step (main_store_ops c) (rlqs (proc m)) s'" and "engine s' = engine (rlqs (proc m))"
    and "classifier_inv (domainClassifier s')"
  shows "serving_ok compile (proc (set_rlqs s' m))"
  using assms server_inv_step [OF assms(2)] main_store_inv.holds_step [OF assms(2)]
  by (simp add: serving_ok_def set_rlqs_def engine_current_def)

lemma serving_ok_cong:
  assumes "rlqs p' = rlqs p" and "currentCfg p' = currentCfg p"
  shows "serving_ok compile p' = serving_ok compile p"
  using assms by (simp add: serving_ok_def engine_current_def)

lemma buildDomainClassifier_inv: "buildDomainClassifier compile cfg = Inr c \<Longrightarrow> classifier_inv c"
  unfolding buildDomainClassifier_def by (simp add: NewDomainClassifier_inv)

lemma serving_ok_hot_reload:
  assumes "hot_reload compile cfg p = Inr (p', l)" and "serving_ok compile p"
  shows "serving_ok compile p'" and "currentCfg p' = (if builds compile cfg then cfg else currentCfg p)"
    and "healthServer (srv p') = healthServer (srv p)"
proof -
  have cur: "engine_current compile p" using assms(2) by (simp add: serving_ok_def)
  note out = hot_reload_result [OF cur, of cfg]
  have "serving_ok compile p' \<and> currentCfg p' = (if builds compile cfg then cfg else currentCfg p)
      \<and> healthServer (srv p') = healthServer (srv p)"
  proof (cases "buildEngine compile cfg")
    case (Inl e)
    then have "srv p' = srv p" "currentCfg p' = currentCfg p" using out assms(1) by simp_all
    then show ?thesis using Inl assms(2) by (simp add: builds_def serving_ok_def engine_current_def)
  next
    case (Inr e)
    show ?thesis
    proof (cases "cfg = currentCfg p")
      case True
      then show ?thesis using Inr assms out by simp
    next
      case False
      then show ?thesis using Inr assms out by (auto simp: builds_def serving_ok_def buildDomainClassifier_inv split: if_splits)
    qed
  qed
  then show "serving_ok compile p'" "currentCfg p' = (if builds compile cfg then cfg else currentCfg p)"
    "healthServer (srv p') = healthServer (srv p)" by simp_all
qed

lemma hot_reload_panics:
  assumes "hot_reload compile cfg p = Inl e" and "serving_ok compile p"
  shows "builds compile cfg \<and> has_policies cfg \<noteq> has_policies (currentCfg p)"
proof -
  have cur: "engine_current compile p" using assms(2) by (simp add: serving_ok_def)
  show ?thesis using hot_reload_result [OF cur, of cfg] assms(1)
    by (cases "buildEngine compile cfg") (simp_all add: builds_def split: if_splits)
qed

text \<open>The configurations the reload loop has received so far, and the last of them that builds.\<close>

definition deliveredConfigs :: "'w Running \<Rightarrow> Config list" where
  "deliveredConfigs m = (case cfgWatch m of None \<Rightarrow> [] | Some (w, ws) \<Rightarrow> received ws)"

definition newest :: "regexp_Compile \<Rightarrow> Config \<Rightarrow> Config list \<Rightarrow> Config" where
  "newest compile cfg cfgs = last (cfg # filter (builds compile) cfgs)"

lemma newest_simps [simp]:
  "newest compile cfg [] = cfg"
  "newest compile cfg (cfgs @ [c]) = (if builds compile c then c else newest compile cfg cfgs)"
  by (simp_all add: newest_def)

text \<open>A deliveredConfigs configuration that adds the first policy or removes the last one.\<close>

definition toggles_policies :: "regexp_Compile \<Rightarrow> Config \<Rightarrow> Config list \<Rightarrow> bool" where
  "toggles_policies compile cfg cfgs \<longleftrightarrow>
     (\<exists>before new after. cfgs = before @ new # after \<and> builds compile new
        \<and> has_policies new \<noteq> has_policies (newest compile cfg before))"

definition config_ok :: "regexp_Compile \<Rightarrow> Config \<Rightarrow> 'w Running \<Rightarrow> bool" where
  "config_ok compile cfg m \<longleftrightarrow>
     (case crashed m of
        None \<Rightarrow> currentCfg (proc m) = newest compile cfg (deliveredConfigs m)
      | Some p \<Rightarrow> signalled m \<or> toggles_policies compile cfg (deliveredConfigs m))"

definition watch_ok :: "string \<Rightarrow> 'w Running \<Rightarrow> bool" where
  "watch_ok configPath m \<longleftrightarrow>
     (\<forall>w ws. cfgWatch m = Some (w, ws) \<longrightarrow>
        w = NewWatcher configPath \<and> watch_inv w ws \<and> (ctxDone ws \<longrightarrow> signalled m) \<and> (crashed m = None \<longrightarrow> \<not> panicked ws))"

definition end_ok :: "otel_env \<Rightarrow> 'w Running \<Rightarrow> bool" where
  "end_ok env m \<longleftrightarrow>
     (if exited m then signalled m \<and> healthServer (srv (proc m)) serviceName = Some NOT_SERVING \<and> exporters (otel m) = []
      else exporters (fst (run_shutdown env (shutdownTracing m) (otel m))) = [])"

definition running_inv :: "'w main_env \<Rightarrow> string \<Rightarrow> Config \<Rightarrow> 'w Running \<Rightarrow> bool" where
  "running_inv env configPath cfg m \<longleftrightarrow>
     serving_ok (envCompile env) (proc m) \<and> config_ok (envCompile env) cfg m
     \<and> watch_ok configPath m \<and> end_ok (envOtel env) m"

lemma set_rlqs_simps [simp]:
  "currentCfg (proc (set_rlqs s m)) = currentCfg (proc m)" "cfgWatch (set_rlqs s m) = cfgWatch m"
  "crashed (set_rlqs s m) = crashed m" "signalled (set_rlqs s m) = signalled m" "exited (set_rlqs s m) = exited m"
  "otel (set_rlqs s m) = otel m" "shutdownTracing (set_rlqs s m) = shutdownTracing m"
  "healthServer (srv (proc (set_rlqs s m))) = healthServer (srv (proc m))" "rlqs (proc (set_rlqs s m)) = s"
  "deliveredConfigs (set_rlqs s m) = deliveredConfigs m"
  by (simp_all add: set_rlqs_def deliveredConfigs_def)

lemma running_inv_set_rlqs:
  assumes "running_inv env configPath cfg m" and "serving_ok (envCompile env) (proc (set_rlqs s m))"
  shows "running_inv env configPath cfg (set_rlqs s m)"
  using assms by (cases "crashed m") (simp_all add: running_inv_def config_ok_def watch_ok_def end_ok_def)

lemma shutdown_frame:
  "rlqsServer (fst (shutdown metrics_time drain_time s)) = rlqsServer s"
  "healthServer (fst (shutdown metrics_time drain_time s)) serviceName = Some NOT_SERVING"
  by (simp_all add: shutdown_def Let_def Stop_def set_phase_def drain_def SetServingStatus_def split: option.splits)

lemma watch_step_ctxDone:
  assumes "watch_step w s s'" and "received s' \<noteq> received s"
  shows "ctxDone s' = ctxDone s" and "panicked s' = panicked s"
  using assms by (cases, simp_all add: write_file_def replace_file_def on_event_def fire_def put_reloader_def)+

lemma watch_step_live: "watch_step w s s' \<Longrightarrow> \<not> panicked s"
  by (erule watch_step.cases) simp_all

lemma watch_ok_step:
  assumes "watch_ok configPath m" and "cfgWatch m = Some (w, ws)" and "watch_step w ws ws'"
  shows "watch_inv w ws'"
  using assms(1,2) watch_inv_step [OF assms(3)] by (auto simp: watch_ok_def)

lemma running_inv_reload:
  assumes inv: "running_inv env configPath cfg m" and alive: "alive m" and w: "cfgWatch m = Some (w, ws)"
    and step: "watch_step w ws ws'" and rec: "received ws' = received ws @ [new]"
  shows "running_inv env configPath cfg ((reload_step (envCompile env) new m)\<lparr>cfgWatch := Some (w, ws')\<rparr>)"
    (is "running_inv _ _ _ ?m'")
proof -
  let ?c = "envCompile env"
  have parts: "serving_ok ?c (proc m)" "config_ok ?c cfg m" "watch_ok configPath m" "end_ok (envOtel env) m"
    using inv by (simp_all add: running_inv_def)
  have cur: "currentCfg (proc m) = newest ?c cfg (received ws)" and al: "crashed m = None" "\<not> exited m"
    using parts(2) alive w by (simp_all add: config_ok_def alive_def deliveredConfigs_def)
  have same: "ctxDone ws' = ctxDone ws" "panicked ws' = panicked ws"
    using watch_step_ctxDone [OF step] rec by simp_all
  have wi: "watch_inv w ws'" using watch_ok_step [OF parts(3) w step] .
  show ?thesis
  proof (cases "hot_reload ?c new (proc m)")
    case (Inl e)
    have m': "?m' = m\<lparr>crashed := Some e, cfgWatch := Some (w, ws')\<rparr>" using Inl by (simp add: reload_step_def)
    have "toggles_policies ?c cfg (received ws')"
      using hot_reload_panics [OF Inl parts(1)] cur unfolding toggles_policies_def rec by fastforce
    then show ?thesis unfolding m' using parts wi same w al
      by (simp add: running_inv_def config_ok_def watch_ok_def end_ok_def deliveredConfigs_def)
  next
    case (Inr r)
    obtain p' l where r: "r = (p', l)" by (cases r)
    have m': "?m' = m\<lparr>proc := p', cfgWatch := Some (w, ws')\<rparr>" using Inr r by (simp add: reload_step_def)
    note kept = serving_ok_hot_reload [OF Inr [unfolded r] parts(1)]
    show ?thesis unfolding m' using parts kept wi same w al cur
      by (simp add: running_inv_def config_ok_def watch_ok_def end_ok_def deliveredConfigs_def rec)
  qed
qed

lemma running_inv_watch:
  assumes inv: "running_inv env configPath cfg m" and alive: "alive m" and w: "cfgWatch m = Some (w, ws)"
    and step: "watch_step w ws ws'" and rec: "received ws' = received ws" and ctx: "ctxDone ws' = ctxDone ws"
  shows "running_inv env configPath cfg
    (m\<lparr>cfgWatch := Some (w, ws'), crashed := (if panicked ws' then Some send_on_closed_channel else None)\<rparr>)"
proof -
  have wi: "watch_inv w ws'" using watch_ok_step [of configPath m, OF _ w step] inv by (simp add: running_inv_def)
  have "panicked ws' \<longrightarrow> signalled m" using wi ctx inv w by (simp add: watch_inv_def running_inv_def watch_ok_def)
  then show ?thesis using assms wi
    by (simp add: running_inv_def config_ok_def watch_ok_def end_ok_def deliveredConfigs_def alive_def)
qed

lemma running_inv_step:
  assumes "main_step env m m'" and inv: "running_inv env configPath cfg m"
  shows "running_inv env configPath cfg m'"
proof -
  have sv: "serving_ok (envCompile env) (proc m)" using inv by (simp add: running_inv_def)
  then have cl: "classifier_inv (domainClassifier (rlqs (proc m)))" by (simp add: serving_ok_def)
  from assms(1) show ?thesis
  proof cases
    case main_serve
    have "serving_ok (envCompile env) (proc m')"
      using sv serving_ok_cong [of "proc m'" "proc m" "envCompile env"]
      by (simp add: main_serve(1) Serve_def set_phase_def SetServingStatus_def)
    then show ?thesis using main_serve inv
      by (simp add: running_inv_def config_ok_def watch_ok_def end_ok_def deliveredConfigs_def alive_def)
  next
    case (main_client s')
    show ?thesis unfolding main_client(1)
      by (rule running_inv_set_rlqs [OF inv serving_ok_step [OF sv client_step_server [OF main_client(4)] client_step_engine [OF main_client(4)] client_step_classifier [OF main_client(4) cl]]])
  next
    case (main_push i)
    have "classifier_inv (domainClassifier (run_push i (rlqs (proc m))))" using cl by (simp only: run_push_engine)
    then show ?thesis unfolding main_push(1)
      by (rule running_inv_set_rlqs [OF inv serving_ok_step [OF sv run_push_server [OF main_push(3)] run_push_engine(1)]])
  next
    case (main_world r w w')
    then show ?thesis
      using running_inv_set_rlqs [OF inv] inv by (simp add: running_inv_def serving_ok_def engine_current_def main_store_ok_def)
  next
    case (main_watch w ws ws')
    then show ?thesis using running_inv_watch [OF inv] by simp
  next
    case (main_reload w ws ws' new)
    then show ?thesis using running_inv_reload [OF inv] by simp
  next
    case main_signal
    then show ?thesis using inv
      by (auto simp: running_inv_def config_ok_def watch_ok_def end_ok_def deliveredConfigs_def alive_def watch_inv_def was_loaded_def
          split: option.split)
  next
    case (main_exit metrics_time drain_time)
    note frame = shutdown_frame [of metrics_time drain_time "srv (proc m)"]
    have "serving_ok (envCompile env) (proc m')"
      using sv serving_ok_cong [of "proc m'" "proc m" "envCompile env"] by (simp add: main_exit(1) main_shutdown_def frame)
    then show ?thesis using main_exit inv frame
      by (simp add: running_inv_def config_ok_def watch_ok_def end_ok_def deliveredConfigs_def alive_def main_shutdown_def)
  qed
qed

lemma watch_start_quiet: "\<not> panicked (watch_start env)" "\<not> ctxDone (watch_start env)" "received (watch_start env) = []"
  by (simp_all add: watch_start_def)

lemma start_process_fresh:
  assumes "start_process compile opts st cfg = Some p"
  shows "currentCfg p = cfg" "phase (grpcServer (srv p)) = GrpcCreated" "streams (rlqs p) = []" "nextPtr (rlqs p) = 0"
    "same_limits (rlqs p) (NewRLQS compile' st' eng (ServerOf cfg) cl)"
  using assms by (auto simp: start_process_def server_New_def NewRLQS_def same_limits_def split: sum.splits)

lemma running_inv_start:
  assumes "main_start env configPath = Inr m"
  shows "running_inv env configPath (currentCfg (proc m)) m"
proof -
  obtain cfg where cfg: "Load (envLoad env) configPath = Inr cfg"
    using assms by (cases "Load (envLoad env) configPath") (simp_all add: main_start_def)
  obtain g stop where tr: "Init (envOtel env) (TracingOf cfg) otel_initial = (g, Inr stop)"
    using assms main_start_loaded [OF cfg] by (cases "Init (envOtel env) (TracingOf cfg) otel_initial") (auto split: sum.splits)
  obtain eng opts where b: "buildEngine (envCompile env) cfg = Inr eng"
      "m = \<lparr>proc = the (start_process (envCompile env) opts (store_value (envWorld env) (buildStore cfg)) cfg),
        otel = g, shutdownTracing = stop, cfgWatch = start_watch (envFsnotify env) (envLoad env) configPath,
        signalled = False, crashed = None, exited = False\<rparr>"
    using assms main_start_loaded [OF cfg] tr by (auto split: sum.splits option.splits)
  obtain c where c: "buildDomainClassifier (envCompile env) cfg = Inr c" using classifier_builds [OF b(1)] by blast
  then have p: "proc m = \<lparr>currentCfg = cfg, srv = server_New (envCompile env) (store_value (envWorld env) (buildStore cfg)) eng (ServerOf cfg) (Some c) opts,
      adminHandler = admin_New cfg\<rparr>"
    using b by (simp add: start_process_def)
  have "main_store_ok (store_value (envWorld env) (buildStore cfg))"
    by (simp add: main_store_ok_def store_value_def buildStore_def breaker_inv_New)
  moreover have "server_inv (rlqs (proc m))" by (simp add: p server_New_def server_inv_NewRLQS)
  moreover have "store (rlqs (proc m)) = store_value (envWorld env) (buildStore cfg)" "engine (rlqs (proc m)) = eng" "currentCfg (proc m) = cfg"
    "domainClassifier (rlqs (proc m)) = c"
    by (simp_all add: p server_New_def NewRLQS_def)
  ultimately have "serving_ok (envCompile env) (proc m)" using b(1) buildDomainClassifier_inv [OF c] by (simp add: serving_ok_def engine_current_def)
  moreover have "config_ok (envCompile env) cfg m" "watch_ok configPath m"
    using b(2) p by (auto simp: config_ok_def watch_ok_def deliveredConfigs_def start_watch_def Let_def watch_inv_start
        watch_start_quiet dest!: Watch_started split: option.splits if_splits sum.splits)
  moreover have "end_ok (envOtel env) m"
    using b(2) Init_shutdown(1) [OF tr] by (simp add: end_ok_def otel_initial_def)
  ultimately show ?thesis by (simp add: running_inv_def p)
qed

lemma running_inv_steps:
  assumes "main_start env configPath = Inr m0" and "main_steps env m0 m"
  shows "running_inv env configPath (currentCfg (proc m0)) m"
  using assms(2) by (induction rule: rtranclp_induct) (simp_all add: running_inv_start [OF assms(1)] running_inv_step)

section \<open>Properties of the running process\<close>

text \<open>
  C2. In every state a started process can reach, with any clients, any Redis, any edits of
  the file and any order of its steps (a handled message is one step), the server invariant and the store's invariant hold, and the engine
  is the one the current configuration prescribes. Unless the process has crashed, the current
  configuration is the newest delivered one whose policies compile, or the initial one.
\<close>

theorem running_process_consistent:
  assumes "main_start env configPath = Inr m0" and "main_steps env m0 m"
  shows "server_inv (rlqs (proc m)) \<and> main_store_ok (store (rlqs (proc m)))
    \<and> buildEngine (envCompile env) (currentCfg (proc m)) = Inr (engine (rlqs (proc m)))
    \<and> (crashed m = None \<longrightarrow>
         currentCfg (proc m) = newest (envCompile env) (currentCfg (proc m0)) (deliveredConfigs m))"
  using running_inv_steps [OF assms]
  by (auto simp: running_inv_def serving_ok_def engine_current_def config_ok_def)


text \<open>
  C1. What a client gets from the process. An acceptable message on a registered stream is
  handled without an error over either store, and answered with exactly the assignments that
  the newest valid configuration prescribes for the named buckets in the stream's domain.
\<close>

theorem clients_get_configured_assignments:
  assumes "main_start env configPath = Inr m0" and "main_steps env m0 m" and "crashed m = None"
    and "sid \<in> set (streams (rlqs (proc m)))" and "acceptable sid req (rlqs (proc m))"
    and "\<And>h r. Send (stream (heap (rlqs (proc m)) sid)) h r = None"
  shows "\<exists>s'. handleMessage (main_store_ops (envRedis env)) sid req (rlqs (proc m)) = (s', None)
    \<and> delivered (heap s' sid) = delivered (heap (rlqs (proc m)) sid)
        @ response_to (configured_assignment (envCompile env)
              (newest (envCompile env) (currentCfg (proc m0)) (deliveredConfigs m)))
            (effective_domain sid req (rlqs (proc m))) (GetBucketQuotaUsages req)"
proof -
  have inv: "serving_ok (envCompile env) (proc m)"
      "currentCfg (proc m) = newest (envCompile env) (currentCfg (proc m0)) (deliveredConfigs m)"
    using running_inv_steps [OF assms(1,2)] assms(3) by (simp_all add: running_inv_def config_ok_def)
  have l: "live sid (rlqs (proc m))" using inv(1) assms(4) by (simp add: serving_ok_def live_def)
  have q: "quota_engine (ProcessUsage (engine (rlqs (proc m)))) (configured_assignment (envCompile env) (currentCfg (proc m)))"
    using inv(1) by (intro buildEngine_quota_engine) (simp add: serving_ok_def engine_current_def)
  show ?thesis
    using accepted_message_store [OF l assms(5) q assms(6), of "main_store_ops (envRedis env)"] inv(2) by auto
qed


section \<open>Configuration edits take effect\<close>

lemma watch_steps_mono: "watch_steps w s s' \<Longrightarrow> (\<exists>cs. received s' = received s @ cs) \<and> (ctxDone s \<longrightarrow> ctxDone s') \<and> (panicked s \<longrightarrow> panicked s')"
proof (induction rule: rtranclp_induct)
  case (step y z)
  from step(2) show ?case using step(3)
    by cases (auto simp: write_file_def replace_file_def on_event_def fire_def put_reloader_def)
qed simp

lemma main_watch_next:
  assumes "watch_step w y z" and "received z = received y" and "ctxDone z = ctxDone y" and "\<not> panicked z" and "alive m"
  shows "main_step env (m\<lparr>cfgWatch := Some (w, y)\<rparr>) (m\<lparr>cfgWatch := Some (w, z)\<rparr>)"
proof -
  have "crashed m = None" and al: "alive (m\<lparr>cfgWatch := Some (w, y)\<rparr>)" using assms(5) by (simp_all add: alive_def)
  then have "m\<lparr>cfgWatch := Some (w, z), crashed := None\<rparr> = m\<lparr>cfgWatch := Some (w, z)\<rparr>" by (cases m) simp
  then show ?thesis using main_watch [OF al _ assms(1-3), of env] assms(4) by simp
qed

lemma main_watch_run:
  assumes "watch_steps w ws ws'" and "alive m" and "cfgWatch m = Some (w, ws)"
  shows "received ws' = received ws \<longrightarrow> \<not> ctxDone ws' \<longrightarrow> \<not> panicked ws' \<longrightarrow> main_steps env m (m\<lparr>cfgWatch := Some (w, ws')\<rparr>)"
  using assms(1)
proof (induction rule: rtranclp_induct)
  case base
  have "m\<lparr>cfgWatch := Some (w, ws)\<rparr> = m" using assms(3) by simp
  then show ?case by simp
next
  case (step y z)
  note y = watch_steps_mono [OF step(1)] and z = watch_steps_mono [OF r_into_rtranclp [of "watch_step w" y z, OF step(2)]]
  show ?case
  proof (intro impI)
    assume q: "received z = received ws" "\<not> ctxDone z" "\<not> panicked z"
    obtain cs cs' where "received y = received ws @ cs" "received z = received y @ cs'" using y z by blast
    then have "length cs = 0" using arg_cong [OF q(1), of length] by simp
    then have yz: "received y = received ws" "\<not> ctxDone y" "\<not> panicked y"
      using \<open>received y = received ws @ cs\<close> z q(2,3) by simp_all
    have "main_step env (m\<lparr>cfgWatch := Some (w, y)\<rparr>) (m\<lparr>cfgWatch := Some (w, z)\<rparr>)"
      by (rule main_watch_next [OF step(2)]) (use q yz assms(2) in simp_all)
    moreover have "main_steps env m (m\<lparr>cfgWatch := Some (w, y)\<rparr>)" using step(3) yz by simp
    ultimately show "main_steps env m (m\<lparr>cfgWatch := Some (w, z)\<rparr>)" by simp
  qed
qed

lemma edit_is_delivered:
  assumes "cfgWatch m = Some (NewWatcher p, ws)" and "alive m" and "Load new p = Inr cfg"
    and "idle ws" and "watching ws" and "\<not> chanClosed ws" and "\<not> panicked ws" and "\<not> ctxDone ws"
  shows "\<exists>ws'. received ws' = received ws @ [cfg]
    \<and> main_steps env m ((reload_step (envCompile env) cfg m)\<lparr>cfgWatch := Some (NewWatcher p, ws')\<rparr>)"
proof -
  let ?w = "NewWatcher p" and ?a = "after_write ws new cfg"
  let ?s = "?a\<lparr>reloaders := [], chan := [cfg]\<rparr>" and ?r = "?a\<lparr>reloaders := [], chan := [], received := received ws @ [cfg]\<rparr>"
  have [simp]: "chan ws = []" "\<not> chanClosed ws" "\<not> panicked ws" "\<not> ctxDone ws" using assms(4,6-8) by (simp_all add: idle_def)
  note [simp] = after_write_def put_reloader_def
  have "watch_step ?w ?a ?s" using watch_send [of ?a "[]" cfg "[]" ?w] by simp
  then have sent: "watch_steps ?w ws ?s" using after_write_run [OF assms(3-7)] by simp
  let ?m = "m\<lparr>cfgWatch := Some (?w, ?s)\<rparr>"
  have run: "main_steps env m ?m" using main_watch_run [OF sent assms(2,1), of env] by simp
  have recv: "watch_step ?w ?s ?r" using watch_receive [of ?s cfg "[]" ?w] by simp
  have "main_step env ?m ((reload_step (envCompile env) cfg ?m)\<lparr>cfgWatch := Some (?w, ?r)\<rparr>)"
    by (rule main_reload [OF _ _ recv]) (use assms(2) in \<open>simp_all add: alive_def\<close>)
  moreover have "(reload_step (envCompile env) cfg ?m)\<lparr>cfgWatch := Some (?w, ?r)\<rparr> = (reload_step (envCompile env) cfg m)\<lparr>cfgWatch := Some (?w, ?r)\<rparr>"
    by (simp add: reload_step_def split: sum.split prod.split)
  ultimately have "main_steps env m ((reload_step (envCompile env) cfg m)\<lparr>cfgWatch := Some (?w, ?r)\<rparr>)"
    using run by simp
  moreover have "received ?r = received ws @ [cfg]" by simp
  ultimately show ?thesis by blast
qed

text \<open>A reload that installs the engine of a new configuration, and the push it starts.\<close>

lemma reload_and_push:
  assumes "serving_ok (envCompile env) (proc m)" and "alive m" and "builds (envCompile env) cfg"
    and "cfg \<noteq> currentCfg (proc m)" and "has_policies cfg = has_policies (currentCfg (proc m))"
    and "main_steps env m ((reload_step (envCompile env) cfg m)\<lparr>cfgWatch := x\<rparr>)"
  shows "\<exists>m'. main_steps env m m' \<and> alive m' \<and> currentCfg (proc m') = cfg \<and> cfgWatch m' = x
    \<and> pushes (rlqs (proc m')) = pushes (rlqs (proc m)) \<and> streams (rlqs (proc m')) = streams (rlqs (proc m))
    \<and> (\<forall>sid \<in> set (streams (rlqs (proc m))).
         subscriptions (heap (rlqs (proc m)) sid) \<noteq> [] \<longrightarrow> (\<forall>h r. Send (stream (heap (rlqs (proc m)) sid)) h r = None) \<longrightarrow>
         delivered (heap (rlqs (proc m')) sid) = delivered (heap (rlqs (proc m)) sid)
           @ [push_response (configured_assignment (envCompile env) cfg) (heap (rlqs (proc m)) sid)])"
proof -
  let ?s = "rlqs (proc m)"
  obtain e where e: "buildEngine (envCompile env) cfg = Inr e" using assms(3) by (auto simp: builds_iff)
  obtain p' c where p': "hot_reload (envCompile env) cfg (proc m) = Inr (p', Reloaded)" "currentCfg p' = cfg"
      "rlqs p' = ?s\<lparr>engine := e, pushes := pushes ?s @ [e], domainClassifier := c\<rparr>"
    using hot_reload_result [of "envCompile env" "proc m" cfg] assms(1,4,5) e by (auto simp: serving_ok_def)
  let ?m = "m\<lparr>proc := p', cfgWatch := x\<rparr>" and ?n = "length (pushes ?s)"
  let ?m' = "set_rlqs (run_push ?n (rlqs p')) ?m"
  have al: "alive ?m" using assms(2) by (simp add: alive_def)
  have "(reload_step (envCompile env) cfg m)\<lparr>cfgWatch := x\<rparr> = ?m" by (simp add: reload_step_def p'(1))
  moreover have "main_step env ?m ?m'" using main_push [OF al, of ?n env] by (simp add: p'(3))
  ultimately have run: "main_steps env m ?m'" using assms(6) by (simp add: rtranclp.rtrancl_into_rtrancl)
  have inv: "server_inv (rlqs p')" using assms(1) by (simp add: serving_ok_def p'(3))
  have "delivered (heap (run_push ?n (rlqs p')) sid) =
      delivered (heap ?s sid) @ [push_response (configured_assignment (envCompile env) cfg) (heap ?s sid)]"
    if "sid \<in> set (streams ?s)" "subscriptions (heap ?s sid) \<noteq> []" "\<And>h r. Send (stream (heap ?s sid)) h r = None" for sid
    using run_push_at [OF inv, of sid ?n] that buildEngine_quota_engine [OF e] by (simp add: p'(3))
  then show ?thesis using run al
    by (intro exI [of _ ?m']) (simp add: p'(2) run_push_kept p'(3) alive_def)
qed


section \<open>The admin endpoints of the process\<close>

text \<open>What the HTTP server of \<open>main\<close> answers: the handler has the server's \<open>StreamStats\<close> and the store.\<close>

definition main_http :: "'w Running \<Rightarrow> string \<Rightarrow> string \<Rightarrow> http_response option" where
  "main_http m url d =
     serve (main_lister (store (rlqs (proc m)))) (adminHandler (proc m)) (rlqs (proc m)) url d"

lemma hot_reload_handler:
  "hot_reload compile cfg p = Inr (p', l) \<Longrightarrow> HandlerCfg (adminHandler p') = HandlerCfg (adminHandler p)"
  by (auto simp: hot_reload_def Let_def SetPendingRestartChanges_def split: sum.splits if_splits)

lemma main_step_handler:
  assumes "main_step env m m'"
  shows "HandlerCfg (adminHandler (proc m')) = HandlerCfg (adminHandler (proc m))"
  using assms
proof cases
  case (main_reload w ws ws' cfg)
  then show ?thesis
    using hot_reload_handler [of "envCompile env" cfg "proc m"] by (simp add: reload_step_def split: sum.split prod.split)
qed (simp_all add: set_rlqs_def main_shutdown_def)

lemma main_steps_handler:
  assumes "main_start env configPath = Inr m0" and "main_steps env m0 m"
  shows "HandlerCfg (adminHandler (proc m)) = currentCfg (proc m0)"
  using assms(2)
proof (induction rule: rtranclp_induct)
  case base
  then show ?case using assms(1)
    by (auto simp: main_start_def Let_def admin_New_def split: sum.splits prod.splits option.splits)
next
  case (step m1 m2)
  then show ?case using main_step_handler [OF step(2)] by simp
qed

lemma subscription_count: "wf_map (subscriptions (heap s sid)) \<Longrightarrow> length (subscriptions (heap s sid)) = card (subscribed sid s)"
  using distinct_card [of "keys (subscriptions (heap s sid))"] by (simp add: subscribed_def)

text \<open>
  C29. What an operator sees of a running process. \<open>/debug/streams\<close> has one entry per registered
  stream with its domain and its number of different buckets; \<open>/debug/buckets\<close> lists the
  in-memory store and is not implemented over Redis; \<open>/debug/config\<close> shows the configuration the
  process was started with, whatever has been reloaded since.
\<close>

theorem admin_shows_process:
  assumes "main_start env configPath = Inr m0" and "main_steps env m0 m"
  shows "main_http m ''/debug/config'' d =
      Some (json_response (ConfigBody (currentCfg (proc m0)) (pendingRestartChanges (adminHandler (proc m)))))
    \<and> main_http m ''/debug/streams'' d =
      Some (json_response (StreamsBody (map (\<lambda>sid. \<lparr>StreamDomain = domain (heap (rlqs (proc m)) sid),
        SubscriptionCount = card (subscribed sid (rlqs (proc m)))\<rparr>) (streams (rlqs (proc m))))))
    \<and> map_option StatusCode (main_http m ''/debug/buckets'' d) =
        Some (case store (rlqs (proc m)) of RunRedis x \<Rightarrow> 501 | RunMemory mem \<Rightarrow> 200)
    \<and> (\<forall>mem. store (rlqs (proc m)) = RunMemory mem \<longrightarrow>
        main_http m ''/debug/buckets'' d = Some (json_response (BucketsBody (List.map_filter (bucket_entry d) (buckets mem)))))"
proof -
  have sv: "serving_ok (envCompile env) (proc m)" using running_inv_steps [OF assms] by (simp add: running_inv_def)
  then have wf: "wf_map (subscriptions (heap (rlqs (proc m)) sid))" if "sid \<in> set (streams (rlqs (proc m)))" for sid
    using that by (simp add: serving_ok_def server_inv_def stream_ok_def)
  have "MemoryStorage_wf mem" if "store (rlqs (proc m)) = RunMemory mem" for mem
    using sv that by (simp add: serving_ok_def main_store_ok_def)
  then have "\<forall>mem. store (rlqs (proc m)) = RunMemory mem \<longrightarrow>
      main_http m ''/debug/buckets'' d = Some (json_response (BucketsBody (List.map_filter (bucket_entry d) (buckets mem))))"
    by (simp add: main_http_def serve_def handleDebugBuckets_def main_lister_def)
  moreover have "map_option StatusCode (main_http m ''/debug/buckets'' d) =
      Some (case store (rlqs (proc m)) of RunRedis x \<Rightarrow> 501 | RunMemory mem \<Rightarrow> 200)"
    by (simp add: main_http_def serve_def handleDebugBuckets_def main_lister_def json_response_def split: main_store.split)
  moreover have "StreamStats (rlqs (proc m)) = map (\<lambda>sid. \<lparr>StreamDomain = domain (heap (rlqs (proc m)) sid),
      SubscriptionCount = card (subscribed sid (rlqs (proc m)))\<rparr>) (streams (rlqs (proc m)))"
    by (simp add: StreamStats_def subscription_count wf)
  then have "main_http m ''/debug/streams'' d =
      Some (json_response (StreamsBody (map (\<lambda>sid. \<lparr>StreamDomain = domain (heap (rlqs (proc m)) sid),
        SubscriptionCount = card (subscribed sid (rlqs (proc m)))\<rparr>) (streams (rlqs (proc m))))))"
    by (simp add: main_http_def serve_def handleDebugStreams_def)
  moreover have "main_http m ''/debug/config'' d =
      Some (json_response (ConfigBody (currentCfg (proc m0)) (pendingRestartChanges (adminHandler (proc m)))))"
    using main_steps_handler [OF assms] by (simp add: main_http_def serve_def handleDebugConfig_def)
  ultimately show ?thesis by (intro conjI)
qed

section \<open>Examples\<close>

text \<open>A configuration file that decodes to the given configuration, and a machine to run on.\<close>

definition file_env :: "Config \<Rightarrow> load_env" where
  "file_env cfg = (env_with [] [])\<lparr>ReadFile := (\<lambda>_. Inr []), Unmarshal := (\<lambda>_ _. Inr cfg)\<rparr>"

definition example_main :: "sim_world main_env" where
  "example_main =
     \<lparr>envLoad = file_env default_config,
      envOtel = \<lparr>NewExporter = (\<lambda>_. None), NewResource = (\<lambda>_. None), ShutdownProvider = (\<lambda>_. None)\<rparr>,
      envTLS = example_tls, envPrometheus = id, envListen = (\<lambda>_. None), envFsnotify = some_fsnotify,
      envCompile = literal_Compile, envRedis = sim_client, envWorld = sim_start True 0\<rparr>"

definition filling :: "64 word \<Rightarrow> Config \<Rightarrow> Config" where
  "filling n cfg = cfg\<lparr>EngineOf := (EngineOf cfg)\<lparr>DefaultTokensPerFill := n\<rparr>\<rparr>"

lemma file_env_Load:
  "Load (file_env default_config) ''c'' = Inr (filling 100 default_config)"
  "Load (file_env (filling 7 default_config)) ''c'' = Inr (filling 7 default_config)"
  "Load (file_env deny_config) ''c'' = Inr (filling 100 deny_config)"
  by (simp_all add: Load_def load_file_def file_env_def env_with_def override_server_def override_engine_def override_storage_def
      override_tracing_def override_def override_tokens_def resolveDeprecated_def resolve_policy_def
      filling_def deny_config_def deny_policy_def default_config_def)

lemma filling_parts [simp]:
  "TracingOf (filling n cfg) = TracingOf cfg" "ServerOf (filling n cfg) = ServerOf cfg" "StorageOf (filling n cfg) = StorageOf cfg"
  "CE_Policies (EngineOf (filling n cfg)) = CE_Policies (EngineOf cfg)" "has_policies (filling n cfg) = has_policies cfg"
  by (simp_all add: filling_def has_policies_def)

lemma example_main_parts:
  "envLoad example_main = file_env default_config" "envFsnotify example_main = some_fsnotify"
  "tracing_starts (envOtel example_main) (TracingOf default_config)" "tls_loads (envTLS example_main) (TLS (ServerOf default_config))"
  "envListen example_main addr = None" "envCompile example_main = literal_Compile" "envRedis example_main = sim_client"
  by (simp_all add: example_main_def tracing_starts_def tls_loads_def default_config_def)

lemma default_builds: "builds compile (filling n default_config)"
  by (simp add: builds_def buildEngine_def filling_def default_config_def)

lemma deny_filling_builds: "\<exists>e. buildEngine literal_Compile (filling n deny_config) = Inr e"
  by (simp add: buildEngine_def deny_config_def filling_def deny_policy_def engine_config_def build_policy_def policy_New_def
      compilePatterns_def compile_domain_def compile_bucketKey_def literal_Compile_def MaxPatternLength_def)

theorem main_start_outcome_witness:
  "\<exists>m. main_start example_main ''c'' = Inr m \<and> cfgWatch m \<noteq> None"
  using main_start_outcome [of example_main "''c''"]
  by (auto simp: file_env_Load example_main_parts default_builds some_fsnotify_def)

lemma example_main_starts:
  "\<exists>m opts. main_start example_main ''c'' = Inr m
    \<and> start_process literal_Compile opts (RunMemory NewMemoryStorage) (filling 100 default_config) = Some (proc m)
    \<and> cfgWatch m = Some (NewWatcher ''c'', watch_start (file_env default_config)) \<and> alive m \<and> \<not> signalled m"
proof -
  have st: "store_value w (buildStore (filling 100 default_config)) = RunMemory NewMemoryStorage" for w :: sim_world
    by (simp add: store_value_def buildStore_def default_config_def)
  obtain stop where tr: "snd (Init (envOtel example_main) (TracingOf default_config) otel_initial) = Inr stop"
    by (simp add: Init_def default_config_def)
  obtain eng where b: "buildEngine literal_Compile (filling 100 default_config) = Inr eng"
    using default_builds builds_iff by blast
  obtain c where "buildDomainClassifier literal_Compile (filling 100 default_config) = Inr c" using classifier_builds [OF b] by blast
  then have sp: "\<exists>p. start_process literal_Compile opts (RunMemory NewMemoryStorage) (filling 100 default_config) = Some p"
    for opts :: "sim_world main_store RLQSServer server_options" using b by (simp add: start_process_def)
  obtain opts where o: "main_options (envTLS example_main) (envPrometheus example_main) (filling 100 default_config) = Inr opts"
    using main_options_iff [of "envTLS example_main" "envPrometheus example_main" "filling 100 default_config"] example_main_parts(4) by auto
  have w: "start_watch some_fsnotify env ''c'' = Some (NewWatcher ''c'', watch_start env)" for env
    by (simp add: start_watch_def some_fsnotify_starts Let_def)
  show ?thesis
    using main_start_loaded [of example_main "''c''" "filling 100 default_config"] tr b o sp [of opts] w
    by (auto simp: example_main_parts file_env_Load st alive_def)
qed

text \<open>A run of the watcher up to its delivery is a run of the process.\<close>

lemma example_reload_run:
  "\<exists>m0 m. main_start example_main ''c'' = Inr m0 \<and> main_steps example_main m0 m \<and> currentCfg (proc m0) = filling 100 default_config
    \<and> deliveredConfigs m = [filling 7 default_config] \<and> crashed m = None"
proof -
  obtain m0 opts where m0: "main_start example_main ''c'' = Inr m0" "alive m0"
      "start_process literal_Compile opts (RunMemory NewMemoryStorage) (filling 100 default_config) = Some (proc m0)"
      "cfgWatch m0 = Some (NewWatcher ''c'', watch_start (file_env default_config))"
    using example_main_starts by blast
  obtain ws where ws: "received ws = [filling 7 default_config]"
      "main_steps example_main m0 ((reload_step literal_Compile (filling 7 default_config) m0)\<lparr>cfgWatch := Some (NewWatcher ''c'', ws)\<rparr>)"
      (is "main_steps _ _ ?m")
    using edit_is_delivered [OF m0(4,2) file_env_Load(2), of example_main] by (auto simp: example_main_parts idle_def watch_start_def)
  have "hot_reload literal_Compile (filling 7 default_config) (proc m0) \<noteq> Inl e" for e
    using hot_reload_panics [of literal_Compile "filling 7 default_config" "proc m0" e] running_inv_start [OF m0(1)] start_process_fresh(1) [OF m0(3)]
    by (auto simp: running_inv_def example_main_parts)
  then have "crashed ?m = None" using m0(2) by (auto simp: reload_step_def alive_def split: sum.split prod.split)
  moreover have "deliveredConfigs ?m = [filling 7 default_config]" by (simp add: deliveredConfigs_def ws(1))
  ultimately show ?thesis using m0(1) ws(2) start_process_fresh(1) [OF m0(3)] by blast
qed

lemma newest_example: "newest literal_Compile cfg [filling 7 default_config] = filling 7 default_config"
  using newest_simps(2) [of literal_Compile cfg "[]" "filling 7 default_config"] default_builds by simp

theorem running_process_consistent_witness:
  "\<exists>m0 m. main_start example_main ''c'' = Inr m0 \<and> main_steps example_main m0 m \<and> currentCfg (proc m0) = filling 100 default_config
    \<and> currentCfg (proc m) = filling 7 default_config \<and> server_inv (rlqs (proc m))"
proof -
  obtain m0 m where m: "main_start example_main ''c'' = Inr m0" "main_steps example_main m0 m"
      "currentCfg (proc m0) = filling 100 default_config" "deliveredConfigs m = [filling 7 default_config]" "crashed m = None"
    using example_reload_run by blast
  then show ?thesis using running_process_consistent [OF m(1,2)] newest_example by (auto simp: example_main_parts)
qed

theorem admin_shows_process_witness:
  "\<exists>m0 m. main_start example_main ''c'' = Inr m0 \<and> main_steps example_main m0 m \<and> currentCfg (proc m) = filling 7 default_config
    \<and> main_http m ''/debug/config'' [] =
        Some (json_response (ConfigBody (filling 100 default_config) (pendingRestartChanges (adminHandler (proc m)))))"
proof -
  obtain m0 m where m: "main_start example_main ''c'' = Inr m0" "main_steps example_main m0 m"
      "currentCfg (proc m0) = filling 100 default_config" "deliveredConfigs m = [filling 7 default_config]" "crashed m = None"
    using example_reload_run by blast
  have "currentCfg (proc m) = filling 7 default_config"
    using running_inv_steps [OF m(1,2)] m(4,5) newest_example by (simp add: running_inv_def config_ok_def example_main_parts)
  moreover have "main_http m ''/debug/config'' [] =
      Some (json_response (ConfigBody (filling 100 default_config) (pendingRestartChanges (adminHandler (proc m)))))"
    using admin_shows_process [OF m(1,2), of "[]"] m(3) by (elim conjE) simp
  ultimately show ?thesis using m(1,2) by blast
qed


text \<open>The example process with one client.\<close>

lemma example_client_run:
  "\<exists>m0 m. main_start example_main ''c'' = Inr m0 \<and> main_steps example_main m0 m \<and> crashed m = None
    \<and> currentCfg (proc m0) = filling 100 default_config \<and> deliveredConfigs m = []
    \<and> streams (rlqs (proc m)) = [0] \<and> heap (rlqs (proc m)) 0 = new_stream example_grpc \<and> same_limits (rlqs (proc m)) (NewRLQS literal_Compile (RunMemory NewMemoryStorage) example_engine (ServerOf default_config) None)
    \<and> alive m \<and> \<not> signalled m \<and> phase (grpcServer (srv (proc m))) = GrpcServing
    \<and> cfgWatch m = Some (NewWatcher ''c'', watch_start (file_env default_config))"
proof -
  obtain m0 opts where m0: "main_start example_main ''c'' = Inr m0" "alive m0"
      "start_process literal_Compile opts (RunMemory NewMemoryStorage) (filling 100 default_config) = Some (proc m0)"
      "cfgWatch m0 = Some (NewWatcher ''c'', watch_start (file_env default_config))" "\<not> signalled m0"
    using example_main_starts by blast
  let ?m1 = "m0\<lparr>proc := (proc m0)\<lparr>srv := Serve (srv (proc m0))\<rparr>\<rparr>"
  let ?s = "snd (open_stream example_grpc (rlqs (proc ?m1)))"
  note fresh = start_process_fresh(2-5) [OF m0(3)]
  have served: "rlqsServer (Serve sv) = rlqsServer sv" "phase (grpcServer (srv (proc ?m1))) = GrpcServing" for sv :: "sim_world main_store Server"
    by (simp_all add: Serve_def set_phase_def SetServingStatus_def)
  have "main_step example_main m0 ?m1" by (rule main_serve [OF m0(2) fresh(1)])
  moreover have "main_step example_main ?m1 (set_rlqs ?s ?m1)"
    by (rule main_client [OF _ served(2) client_open]) (use m0(2) in \<open>simp add: alive_def\<close>)
  ultimately have run: "main_steps example_main m0 (set_rlqs ?s ?m1)" by (meson r_into_rtranclp rtranclp.rtrancl_into_rtrancl)
  have "grpcServer (srv (proc (set_rlqs ?s ?m1))) = grpcServer (srv (proc ?m1))" by (simp add: set_rlqs_def)
  then have ph: "phase (grpcServer (srv (proc (set_rlqs ?s ?m1)))) = GrpcServing" by (simp only: served(2))
  show ?thesis
    by (rule exI [of _ m0], rule exI [of _ "set_rlqs ?s ?m1"])
      (use m0 run ph fresh start_process_fresh(1) [OF m0(3)] in \<open>simp add: alive_def deliveredConfigs_def watch_start_def served
        open_stream_def Let_def upd_metrics_def same_limits_def\<close>)
qed


lemma example_acceptable:
  assumes "heap s 0 = new_stream example_grpc"
    and "same_limits s (NewRLQS literal_Compile (RunMemory NewMemoryStorage) example_engine (ServerOf default_config) None)"
  shows "acceptable 0 example_message s"
  using assms unfolding acceptable_def domain_ok_def reports_ok_def usages_ok_def capacity_ok_def subscribed_def usage_keys_def
  by (simp add: new_stream_def example_message_def example_usage_def example_bucket_def named_def has_bucket_def same_limits_def
      usage_valid_def validate_bucket_def NewRLQS_def Let_def default_config_def)

theorem clients_get_configured_assignments_witness:
  "\<exists>m0 m s'. main_start example_main ''c'' = Inr m0 \<and> main_steps example_main m0 m
    \<and> handleMessage (main_store_ops sim_client) 0 example_message (rlqs (proc m)) = (s', None)
    \<and> length (delivered (heap s' 0)) = 1"
proof -
  obtain m0 m where m: "main_start example_main ''c'' = Inr m0" "main_steps example_main m0 m" "crashed m = None"
      "streams (rlqs (proc m)) = [0]" "heap (rlqs (proc m)) 0 = new_stream example_grpc" "same_limits (rlqs (proc m)) (NewRLQS literal_Compile (RunMemory NewMemoryStorage) example_engine (ServerOf default_config) None)"
    using example_client_run by blast
  note acc = example_acceptable [OF m(5,6)]
  have "length (response_to f d (GetBucketQuotaUsages example_message)) = 1" for f d
    by (simp add: response_to_def example_message_def example_usage_def example_bucket_def named_def has_bucket_def)
  then show ?thesis
    using clients_get_configured_assignments [OF m(1-3) _ acc] m
    by (fastforce simp: new_stream_def example_grpc_def example_main_parts)
qed

text \<open>The example process with a client that has subscribed to a bucket.\<close>

lemma example_subscribed_run:
  "\<exists>m0 m. main_start example_main ''c'' = Inr m0 \<and> main_steps example_main m0 m \<and> alive m \<and> \<not> signalled m
    \<and> cfgWatch m = Some (NewWatcher ''c'', watch_start (file_env default_config))
    \<and> currentCfg (proc m) = filling 100 default_config \<and> 0 \<in> set (streams (rlqs (proc m)))
    \<and> subscriptions (heap (rlqs (proc m)) 0) \<noteq> [] \<and> (\<forall>h r. Send (stream (heap (rlqs (proc m)) 0)) h r = None)"
proof -
  obtain m0 m where m: "main_start example_main ''c'' = Inr m0" "main_steps example_main m0 m" "crashed m = None"
      "currentCfg (proc m0) = filling 100 default_config" "deliveredConfigs m = []" "streams (rlqs (proc m)) = [0]"
      "heap (rlqs (proc m)) 0 = new_stream example_grpc"
      "same_limits (rlqs (proc m)) (NewRLQS literal_Compile (RunMemory NewMemoryStorage) example_engine (ServerOf default_config) None)"
      "alive m" "\<not> signalled m" "phase (grpcServer (srv (proc m))) = GrpcServing"
      "cfgWatch m = Some (NewWatcher ''c'', watch_start (file_env default_config))"
    using example_client_run by blast
  have inv: "serving_ok literal_Compile (proc m)" "currentCfg (proc m) = filling 100 default_config"
    using running_inv_steps [OF m(1,2)] m(3-5) by (simp_all add: running_inv_def config_ok_def example_main_parts)
  have l: "live 0 (rlqs (proc m))" using inv(1) m(6) by (simp add: serving_ok_def live_def)
  have q: "quota_engine (ProcessUsage (engine (rlqs (proc m)))) (configured_assignment literal_Compile (currentCfg (proc m)))"
    using inv(1) by (intro buildEngine_quota_engine) (simp add: serving_ok_def engine_current_def)
  have send: "Send (stream (heap (rlqs (proc m)) 0)) h r = None" for h r by (simp add: m(7) new_stream_def example_grpc_def)
  obtain s' where s': "handleMessage (main_store_ops sim_client) 0 example_message (rlqs (proc m)) = (s', None)"
      "subscribed 0 s' = subscribed 0 (rlqs (proc m)) \<union> usage_keys (GetBucketQuotaUsages example_message)"
    using accepted_message_store [OF l example_acceptable [OF m(7,8)] q send, of "main_store_ops sim_client"] by blast
  have "subscribed 0 s' \<noteq> {}"
    by (simp add: s'(2) usage_keys_def example_message_def example_usage_def example_bucket_def named_def has_bucket_def)
  then have sub: "subscriptions (heap s' 0) \<noteq> []" by (auto simp: subscribed_def)
  have kept: "streams s' = [0]" "stream (heap s' 0) = stream (heap (rlqs (proc m)) 0)"
    using keeps_handleMessage [of 0 "rlqs (proc m)" "main_store_ops sim_client" example_message] s'(1) m(6)
    by (simp_all add: keeps_def)
  have "main_step example_main m (set_rlqs s' m)"
    using main_client [OF m(9,11), of example_main s'] client_message [OF _ s'(1)] by (simp add: m(6) example_main_parts)
  then have "main_steps example_main m0 (set_rlqs s' m)" using m(2) by (simp add: rtranclp.rtrancl_into_rtrancl)
  then show ?thesis
    using m(1,9,10,12) inv(2) sub send
    by (intro exI [of _ m0] exI [of _ "set_rlqs s' m"]) (simp add: kept alive_def)
qed


end
