(* ===== verification/Interleaving.thy ===== *)
theory Interleaving
  imports Server_Behaviour
begin

text \<open>
  The server at the granularity of its locks (\<open>src/internal/server/server.go\<close>). Every stream has a
  goroutine with a program counter, every engine swap starts a push goroutine. A step ends where a
  mutex is released, an atomic value or a collector is accessed, or a call of the store or of
  \<open>Send\<close> returns; the goroutines interleave at these points. The atomic steps of theory
  \<open>Server_Reachable\<close> are the schedules in which a goroutine runs without interruption.
\<close>

section \<open>Program counters\<close>

text \<open>The locked part of giving back a reference, and whether the bucket is to be removed.\<close>

definition release_locked :: "string \<Rightarrow> BucketKey \<Rightarrow> 'st RLQSServer \<Rightarrow> 'st RLQSServer \<times> bool" where
  "release_locked d key s =
     (let scopedKey = DomainScopedKey d key;
          s1 = s\<lparr>bucketRefs := AList.update scopedKey (get_or 0 (bucketRefs s) scopedKey - 1) (bucketRefs s)\<rparr>;
          shouldRemove = get_or 0 (bucketRefs s1) scopedKey \<le> 0
      in (if shouldRemove then s1\<lparr>bucketRefs := AList.delete scopedKey (bucketRefs s1)\<rparr> else s1, shouldRemove))"

definition remove_bucket :: "'st BucketStore \<Rightarrow> go_context \<Rightarrow> string \<Rightarrow> BucketKey \<Rightarrow> 'st RLQSServer \<Rightarrow> 'st RLQSServer" where
  "remove_bucket ops ctx d key s = s\<lparr>store := fst (RemoveBucket ops ctx d key (store s))\<rparr>"

text \<open>
  The points at which the goroutine of a stream can be interrupted, in the order of the code:
  registered but not counted; in \<open>Recv\<close>; in the loop over the usages with the reports built so far,
  where a new subscription still has to be counted (\<open>AtRef\<close>), shown in the gauge (\<open>AtGauge\<close>) and a
  usage recorded (\<open>AtRecord\<close>); before the engine; in the loop over the actions, where an abandoned
  bucket still has to be released, removed and taken from the gauge; returned with a result;
  deregistering; in the loop of the cleanup; gone.
\<close>

datatype pc =
    AtOpened
  | AtRecv
  | AtUsages "BucketQuotaUsage list" "UsageReport list"
  | AtRef BucketKey BucketQuotaUsage "BucketQuotaUsage list" "UsageReport list"
  | AtGauge BucketQuotaUsage "BucketQuotaUsage list" "UsageReport list"
  | AtRecord BucketQuotaUsage "BucketQuotaUsage list" "UsageReport list"
  | AtEngine "UsageReport list"
  | AtAbandon "BucketAction list" "BucketAction list"
  | AtRelease BucketKey "BucketAction list" "BucketAction list"
  | AtRemove BucketKey "BucketAction list" "BucketAction list"
  | AtAbandonGauge "BucketAction list" "BucketAction list"
  | AtReturn "rpc_error option"
  | AtDeregister "rpc_error option"
  | AtCleanup "BucketKey list" "rpc_error option"
  | AtCleanupRelease BucketKey "BucketKey list" "rpc_error option"
  | AtCleanupRemove BucketKey "BucketKey list" "rpc_error option"
  | Gone "rpc_error option"

section \<open>The steps of a stream's goroutine\<close>

definition stream_ctx :: "nat \<Rightarrow> 'st RLQSServer \<Rightarrow> go_context" where
  "stream_ctx sid s = StreamCtx (stream (heap s sid))"

text \<open>\<open>StreamRateLimitQuotas\<close> registers the stream under the server's mutex, then counts it.\<close>

definition register :: "grpc_stream \<Rightarrow> 'st RLQSServer \<Rightarrow> 'st RLQSServer" where
  "register g s =
     s\<lparr>heap := (heap s)(nextPtr s := new_stream g), nextPtr := Suc (nextPtr s), streams := streams s @ [nextPtr s]\<rparr>"

definition count_streams :: "int \<Rightarrow> 'st RLQSServer \<Rightarrow> 'st RLQSServer" where
  "count_streams n s = upd_metrics (\<lambda>m. m\<lparr>ActiveStreams := ActiveStreams m + n\<rparr>) s"

text \<open>A received message: the section under the stream's mutex and the guards before the loop.\<close>

definition bind_step :: "nat \<Rightarrow> RateLimitQuotaUsageReports \<Rightarrow> 'st RLQSServer \<Rightarrow> 'st RLQSServer \<times> pc" where
  "bind_step sid req s =
     (case bind_domain sid req s of
        (s1, Some e) \<Rightarrow> (s1, AtReturn (Some e))
      | (s1, None) \<Rightarrow>
          (let usages = GetBucketQuotaUsages req in
           if length usages = 0 then (s1, AtRecv)
           else if maxReportsPerMessage s1 > 0 \<and> int (length usages) > maxReportsPerMessage s1
           then (s1, AtReturn (Some (Status ResourceExhausted (TooManyReports (length usages) (maxReportsPerMessage s1)))))
           else (s1, AtUsages usages [])))"

text \<open>The head of the loop over the usages, up to the end of the section under the stream's mutex.\<close>

definition usage_step ::
  "nat \<Rightarrow> BucketQuotaUsage \<Rightarrow> BucketQuotaUsage list \<Rightarrow> UsageReport list \<Rightarrow> 'st RLQSServer \<Rightarrow> 'st RLQSServer \<times> pc" where
  "usage_step sid u us reports s =
     (case GetBucketId u of
        None \<Rightarrow> (s, AtUsages us reports)
      | Some bid \<Rightarrow>
          if length (Bucket bid) = 0 then (s, AtUsages us reports)
          else (case validate_bucket s (Bucket bid) of
                  Some e \<Rightarrow> (s, AtReturn (Some e))
                | None \<Rightarrow>
                    (let key = BucketKeyFromProto (Some bid); ss = heap s sid in
                     if key \<in> set (keys (subscriptions ss)) then (s, AtRecord u us reports)
                     else if maxBucketsPerStream s > 0 \<and> int (length (subscriptions ss)) \<ge> maxBucketsPerStream s
                     then (s, AtReturn (Some (Status ResourceExhausted (MaxBucketsExceeded (maxBucketsPerStream s)))))
                     else (upd_stream sid (\<lambda>ss. ss\<lparr>subscriptions := AList.update key bid (subscriptions ss)\<rparr>) s,
                           AtRef key u us reports))))"

definition add_ref :: "string \<Rightarrow> BucketKey \<Rightarrow> 'st RLQSServer \<Rightarrow> 'st RLQSServer" where
  "add_ref d key s =
     (let scopedKey = DomainScopedKey d key
      in s\<lparr>bucketRefs := AList.update scopedKey (get_or 0 (bucketRefs s) scopedKey + 1) (bucketRefs s)\<rparr>)"

definition inc_active_buckets :: "string \<Rightarrow> 'st RLQSServer \<Rightarrow> 'st RLQSServer" where
  "inc_active_buckets label s =
     upd_metrics (\<lambda>m. m\<lparr>ActiveBuckets := add_label label 1 (ActiveBuckets m)\<rparr>) s"

definition engine_step :: "nat \<Rightarrow> UsageReport list \<Rightarrow> 'st RLQSServer \<Rightarrow> 'st RLQSServer \<times> pc" where
  "engine_step sid reports s =
     (let s1 = upd_metrics (\<lambda>m. m\<lparr>EngineDuration := Suc (EngineDuration m)\<rparr>) s
      in case ProcessUsage (engine s) (engine_ctx (stream_ctx sid s) s) (domain (heap s sid)) reports of
           Inl e \<Rightarrow> (s1, AtReturn (Some (Status Internal (EngineFailed e))))
         | Inr actions \<Rightarrow>
             if length actions = 0 then (s1, AtRecv)
             else (add_assignments (metricDomain (heap s sid)) (length actions) s1, AtAbandon actions actions))"

definition abandon_step ::
  "nat \<Rightarrow> BucketAction \<Rightarrow> BucketAction list \<Rightarrow> BucketAction list \<Rightarrow> 'st RLQSServer \<Rightarrow> 'st RLQSServer \<times> pc" where
  "abandon_step sid a as actions s =
     (let key = BucketKeyFromProto (ActionBucketId a)
      in if is_abandon a \<and> key \<in> set (keys (subscriptions (heap s sid)))
         then (upd_stream sid (\<lambda>ss. ss\<lparr>subscriptions := AList.delete key (subscriptions ss)\<rparr>) s, AtRelease key as actions)
         else (s, AtAbandon as actions))"

definition deregister_step :: "nat \<Rightarrow> rpc_error option \<Rightarrow> 'st RLQSServer \<Rightarrow> 'st RLQSServer \<times> pc" where
  "deregister_step sid e s =
     (s\<lparr>streams := remove1 sid (streams s)\<rparr>,
      if domainBound (heap s sid) then AtCleanup (keys (subscriptions (heap s sid))) e else Gone e)"

text \<open>One step of the goroutine of stream \<open>sid\<close>; in \<open>Recv\<close> it waits, and when gone it has ended.\<close>

fun stream_step :: "'st BucketStore \<Rightarrow> nat \<Rightarrow> pc \<Rightarrow> 'st RLQSServer \<Rightarrow> 'st RLQSServer \<times> pc" where
  "stream_step ops sid AtOpened s = (count_streams 1 s, AtRecv)"
| "stream_step ops sid AtRecv s = (s, AtRecv)"
| "stream_step ops sid (AtUsages [] rs) s = (count_reports (metricDomain (heap s sid)) (length rs) s, AtEngine rs)"
| "stream_step ops sid (AtUsages (u # us) rs) s = usage_step sid u us rs s"
| "stream_step ops sid (AtRef key u us rs) s = (add_ref (domain (heap s sid)) key s, AtGauge u us rs)"
| "stream_step ops sid (AtGauge u us rs) s = (inc_active_buckets (metricDomain (heap s sid)) s, AtRecord u us rs)"
| "stream_step ops sid (AtRecord u us rs) s =
     (record_report ops (stream_ctx sid s) sid (report_of u) s, AtUsages us (rs @ [report_of u]))"
| "stream_step ops sid (AtEngine rs) s = engine_step sid rs s"
| "stream_step ops sid (AtAbandon [] actions) s =
     (case send_response sid \<lparr>GetBucketAction = actions\<rparr> s of
        (s1, Some e) \<Rightarrow> (s1, AtReturn (Some e))
      | (s1, None) \<Rightarrow> (s1, AtRecv))"
| "stream_step ops sid (AtAbandon (a # as) actions) s = abandon_step sid a as actions s"
| "stream_step ops sid (AtRelease key as actions) s =
     (case release_locked (domain (heap s sid)) key s of (s1, rm) \<Rightarrow>
        (s1, if rm then AtRemove key as actions else AtAbandonGauge as actions))"
| "stream_step ops sid (AtRemove key as actions) s =
     (remove_bucket ops (stream_ctx sid s) (domain (heap s sid)) key s, AtAbandonGauge as actions)"
| "stream_step ops sid (AtAbandonGauge as actions) s =
     (dec_active_buckets (metricDomain (heap s sid)) s, AtAbandon as actions)"
| "stream_step ops sid (AtReturn e) s = (count_streams (- 1) s, AtDeregister e)"
| "stream_step ops sid (AtDeregister e) s = deregister_step sid e s"
| "stream_step ops sid (AtCleanup [] e) s = (s, Gone e)"
| "stream_step ops sid (AtCleanup (key # ks) e) s =
     (dec_active_buckets (metricDomain (heap s sid)) s, AtCleanupRelease key ks e)"
| "stream_step ops sid (AtCleanupRelease key ks e) s =
     (case release_locked (domain (heap s sid)) key s of (s1, rm) \<Rightarrow>
        (s1, if rm then AtCleanupRemove key ks e else AtCleanup ks e))"
| "stream_step ops sid (AtCleanupRemove key ks e) s =
     (remove_bucket ops Background (domain (heap s sid)) key s, AtCleanup ks e)"
| "stream_step ops sid (Gone e) s = (s, Gone e)"

section \<open>Push goroutines and the machine\<close>

text \<open>A push goroutine has a snapshot of the streams still to visit, or is about to send to one.\<close>

datatype pusher = PushNext Engine "nat list" | PushSend Engine nat RateLimitQuotaResponse "nat list"

definition push_next :: "Engine \<Rightarrow> nat \<Rightarrow> nat list \<Rightarrow> 'st RLQSServer \<Rightarrow> 'st RLQSServer \<times> pusher" where
  "push_next e sid sids s =
     (let ss = heap s sid in
      if \<not> domainBound ss \<or> length (subscriptions ss) = 0 then (s, PushNext e sids)
      else (case ProcessUsage e (engine_ctx (stream_ctx sid s) s) (domain ss) (push_reports ss) of
              Inl err \<Rightarrow> (s, PushNext e sids)
            | Inr actions \<Rightarrow>
                if length actions = 0 then (s, PushNext e sids)
                else (add_assignments (metricDomain ss) (length actions) s,
                      PushSend e sid \<lparr>GetBucketAction = actions\<rparr> sids)))"

record 'st Machine =
  machineServer :: "'st RLQSServer"
  pcs :: "nat \<Rightarrow> pc"
  pushers :: "pusher list"

definition running :: "pc \<Rightarrow> bool" where
  "running p \<longleftrightarrow> (case p of AtRecv \<Rightarrow> False | Gone e \<Rightarrow> False | _ \<Rightarrow> True)"

inductive fine_step :: "'st BucketStore \<Rightarrow> 'st Machine \<Rightarrow> 'st Machine \<Rightarrow> bool" for ops where
  fine_open: "fine_step ops \<lparr>machineServer = s, pcs = P, pushers = G\<rparr>
      \<lparr>machineServer = register g s, pcs = P(nextPtr s := AtOpened), pushers = G\<rparr>"
| fine_message: "sid < nextPtr s \<Longrightarrow> P sid = AtRecv \<Longrightarrow> bind_step sid req s = (s', p) \<Longrightarrow>
    fine_step ops \<lparr>machineServer = s, pcs = P, pushers = G\<rparr> \<lparr>machineServer = s', pcs = P(sid := p), pushers = G\<rparr>"
| fine_hangup: "sid < nextPtr s \<Longrightarrow> P sid = AtRecv \<Longrightarrow> e = None \<or> e = Some (TransportError err) \<Longrightarrow>
    fine_step ops \<lparr>machineServer = s, pcs = P, pushers = G\<rparr> \<lparr>machineServer = s, pcs = P(sid := AtReturn e), pushers = G\<rparr>"
| fine_run: "sid < nextPtr s \<Longrightarrow> running (P sid) \<Longrightarrow> stream_step ops sid (P sid) s = (s', p) \<Longrightarrow>
    fine_step ops \<lparr>machineServer = s, pcs = P, pushers = G\<rparr> \<lparr>machineServer = s', pcs = P(sid := p), pushers = G\<rparr>"
| fine_swap: "SwapEngine e s = Inr s' \<Longrightarrow>
    fine_step ops \<lparr>machineServer = s, pcs = P, pushers = G\<rparr> \<lparr>machineServer = s', pcs = P, pushers = G\<rparr>"
| fine_classifier: "fine_step ops \<lparr>machineServer = s, pcs = P, pushers = G\<rparr>
      \<lparr>machineServer = SwapDomainClassifier c s, pcs = P, pushers = G\<rparr>"
| fine_push_start: "pushes s = es @ e # es' \<Longrightarrow>
    fine_step ops \<lparr>machineServer = s, pcs = P, pushers = G\<rparr>
      \<lparr>machineServer = s\<lparr>pushes := es @ es'\<rparr>, pcs = P, pushers = G @ [PushNext e (streams s)]\<rparr>"
| fine_push_next: "push_next e sid sids s = (s', g) \<Longrightarrow>
    fine_step ops \<lparr>machineServer = s, pcs = P, pushers = G @ PushNext e (sid # sids) # G'\<rparr>
      \<lparr>machineServer = s', pcs = P, pushers = G @ g # G'\<rparr>"
| fine_push_send: "send_response sid resp s = (s', err) \<Longrightarrow>
    fine_step ops \<lparr>machineServer = s, pcs = P, pushers = G @ PushSend e sid resp sids # G'\<rparr>
      \<lparr>machineServer = s', pcs = P, pushers = G @ PushNext e sids # G'\<rparr>"
| fine_push_done: "fine_step ops \<lparr>machineServer = s, pcs = P, pushers = G @ PushNext e [] # G'\<rparr>
      \<lparr>machineServer = s, pcs = P, pushers = G @ G'\<rparr>"

abbreviation fine_steps :: "'st BucketStore \<Rightarrow> 'st Machine \<Rightarrow> 'st Machine \<Rightarrow> bool" where
  "fine_steps ops \<equiv> rtranclp (fine_step ops)"

text \<open>The machine of a new server, and a machine in which every stream waits or is gone.\<close>

definition start_machine :: "'st RLQSServer \<Rightarrow> 'st Machine" where
  "start_machine s = \<lparr>machineServer = s, pcs = (\<lambda>_. Gone None), pushers = []\<rparr>"

definition resting :: "'st Machine \<Rightarrow> bool" where
  "resting m \<longleftrightarrow> pushers m = [] \<and> (\<forall>sid < nextPtr (machineServer m). \<not> running (pcs m sid))"

section \<open>What a goroutine holds\<close>

text \<open>
  The references a goroutine accounts for in the shared map, its share of the gauge, whether it is
  counted as an active stream and whether it is registered, in dependence on where it stands.
\<close>

definition one_if :: "bool \<Rightarrow> int" where
  "one_if b = (if b then 1 else 0)"

definition keys_at :: "string \<Rightarrow> BucketKey list \<Rightarrow> BucketKey \<Rightarrow> int" where
  "keys_at d ks k = int (length (filter (\<lambda>key. DomainScopedKey d key = k) ks))"

fun held :: "pc \<Rightarrow> streamState \<Rightarrow> BucketKey \<Rightarrow> int" where
  "held (AtRef key u us rs) ss k = refs_of ss k - one_if (DomainScopedKey (domain ss) key = k)"
| "held (AtRelease key as acts) ss k = refs_of ss k + one_if (DomainScopedKey (domain ss) key = k)"
| "held (AtCleanup ks e) ss k = keys_at (domain ss) ks k"
| "held (AtCleanupRelease key ks e) ss k = keys_at (domain ss) (key # ks) k"
| "held (AtCleanupRemove key ks e) ss k = keys_at (domain ss) ks k"
| "held (Gone e) ss k = 0"
| "held _ ss k = refs_of ss k"

fun shown :: "pc \<Rightarrow> streamState \<Rightarrow> string \<Rightarrow> int" where
  "shown (AtRef key u us rs) ss l = gauge_of ss l - one_if (metricDomain ss = l)"
| "shown (AtGauge u us rs) ss l = gauge_of ss l - one_if (metricDomain ss = l)"
| "shown (AtRelease key as acts) ss l = gauge_of ss l + one_if (metricDomain ss = l)"
| "shown (AtRemove key as acts) ss l = gauge_of ss l + one_if (metricDomain ss = l)"
| "shown (AtAbandonGauge as acts) ss l = gauge_of ss l + one_if (metricDomain ss = l)"
| "shown (AtCleanup ks e) ss l = one_if (metricDomain ss = l) * int (length ks)"
| "shown (AtCleanupRelease key ks e) ss l = one_if (metricDomain ss = l) * int (length ks)"
| "shown (AtCleanupRemove key ks e) ss l = one_if (metricDomain ss = l) * int (length ks)"
| "shown (Gone e) ss l = 0"
| "shown _ ss l = gauge_of ss l"

fun counted :: "pc \<Rightarrow> int" where
  "counted AtOpened = 0"
| "counted (AtDeregister e) = 0"
| "counted (AtCleanup ks e) = 0"
| "counted (AtCleanupRelease key ks e) = 0"
| "counted (AtCleanupRemove key ks e) = 0"
| "counted (Gone e) = 0"
| "counted _ = 1"

fun registered :: "pc \<Rightarrow> bool" where
  "registered (AtCleanup ks e) = False"
| "registered (AtCleanupRelease key ks e) = False"
| "registered (AtCleanupRemove key ks e) = False"
| "registered (Gone e) = False"
| "registered _ = True"

text \<open>What the code between two steps relies on: the stream is bound, a new subscription is in place.\<close>

fun pc_ok :: "streamState \<Rightarrow> pc \<Rightarrow> bool" where
  "pc_ok ss (AtUsages us rs) = domainBound ss"
| "pc_ok ss (AtRef key u us rs) = (domainBound ss \<and> key \<in> set (keys (subscriptions ss)))"
| "pc_ok ss (AtGauge u us rs) = domainBound ss"
| "pc_ok ss (AtRecord u us rs) = domainBound ss"
| "pc_ok ss (AtEngine rs) = domainBound ss"
| "pc_ok ss (AtAbandon as acts) = domainBound ss"
| "pc_ok ss (AtRelease key as acts) = domainBound ss"
| "pc_ok ss (AtRemove key as acts) = domainBound ss"
| "pc_ok ss (AtAbandonGauge as acts) = domainBound ss"
| "pc_ok ss _ = True"

definition machine_inv :: "'st Machine \<Rightarrow> bool" where
  "machine_inv m \<longleftrightarrow>
     (let s = machineServer m; P = pcs m in
      distinct (streams s) \<and> set (streams s) = {sid. sid < nextPtr s \<and> registered (P sid)}
      \<and> (\<forall>sid < nextPtr s. stream_ok s (heap s sid) \<and> pc_ok (heap s sid) (P sid))
      \<and> refs_ok (bucketRefs s)
      \<and> (\<forall>k. get_or 0 (bucketRefs s) k = (\<Sum>sid<nextPtr s. held (P sid) (heap s sid) k))
      \<and> ActiveStreams (metrics s) = (\<Sum>sid<nextPtr s. counted (P sid))
      \<and> (\<forall>l. ActiveBuckets (metrics s) l = (\<Sum>sid<nextPtr s. shown (P sid) (heap s sid) l)))"

lemma keys_at_Nil [simp]: "keys_at d [] k = 0"
  by (simp add: keys_at_def)

lemma keys_at_Cons [simp]: "keys_at d (key # ks) k = keys_at d ks k + one_if (DomainScopedKey d key = k)"
  by (simp add: keys_at_def one_if_def)

lemma one_if_nonneg [simp]: "one_if b \<ge> 0"
  by (simp add: one_if_def)

lemma one_if_simps [simp]: "one_if True = 1" "one_if False = 0"
  by (simp_all add: one_if_def)

lemma held_nonneg: "pc_ok ss p \<Longrightarrow> held p ss k \<ge> 0"
proof (cases p)
  case (AtRef key u us rs)
  assume "pc_ok ss p"
  then show ?thesis using AtRef refs_of_subscribed [of key ss] refs_of_nonneg [of ss k] by (auto simp: one_if_def)
qed (auto simp: refs_of_nonneg keys_at_def)

lemma sum_lessThan_change:
  fixes f g :: "nat \<Rightarrow> int"
  assumes "i < n" and "\<And>j. j \<noteq> i \<Longrightarrow> g j = f j"
  shows "(\<Sum>j<n. g j) = (\<Sum>j<n. f j) + g i - f i"
proof -
  have "(\<Sum>j\<in>{..<n} - {i}. g j) = (\<Sum>j\<in>{..<n} - {i}. f j)" using assms(2) by (intro sum.cong) auto
  then show ?thesis using assms(1) by (simp add: sum.remove [of "{..<n}" i])
qed

text \<open>
  A step of one goroutine keeps the invariant when it moves the shared counts by exactly what
  changes in the goroutine's own account.
\<close>

lemma machine_inv_local:
  assumes inv: "machine_inv \<lparr>machineServer = s, pcs = P, pushers = G\<rparr>" and sid: "sid < nextPtr s"
    and frame: "nextPtr s' = nextPtr s" "heap s' = (heap s)(sid := ss')" "same_limits s s'"
    and ok: "stream_ok s ss'" "pc_ok ss' p" "refs_ok (bucketRefs s')"
    and refs: "\<And>k. get_or 0 (bucketRefs s') k = get_or 0 (bucketRefs s) k + held p ss' k - held (P sid) (heap s sid) k"
    and gauge: "\<And>l. ActiveBuckets (metrics s') l = ActiveBuckets (metrics s) l + shown p ss' l - shown (P sid) (heap s sid) l"
    and active: "ActiveStreams (metrics s') = ActiveStreams (metrics s) + counted p - counted (P sid)"
    and regs: "streams s' = (if registered (P sid) \<and> \<not> registered p then remove1 sid (streams s) else streams s)"
      "registered p \<longrightarrow> registered (P sid)"
  shows "machine_inv \<lparr>machineServer = s', pcs = P(sid := p), pushers = G'\<rparr>"
proof -
  have change: "(\<Sum>i<nextPtr s. h ((P(sid := p)) i) (((heap s)(sid := ss')) i)) =
      (\<Sum>i<nextPtr s. h (P i) (heap s i)) + h p ss' - h (P sid) (heap s sid)" for h :: "pc \<Rightarrow> streamState \<Rightarrow> int"
    using sum_lessThan_change [OF sid, of "\<lambda>i. h ((P(sid := p)) i) (((heap s)(sid := ss')) i)" "\<lambda>i. h (P i) (heap s i)"]
    by simp
  have "distinct (streams s') \<and> set (streams s') = {i. i < nextPtr s \<and> registered ((P(sid := p)) i)}"
    using inv regs sid by (auto simp: machine_inv_def Let_def split: if_splits)
  then show ?thesis
    using inv ok refs gauge active change [of "\<lambda>p ss. held p ss _"] change [of "\<lambda>p ss. shown p ss _"] change [of "\<lambda>p ss. counted p"]
    by (simp add: machine_inv_def Let_def frame stream_ok_cong [OF frame(3)])
qed

lemma machine_inv_same_heap:
  assumes "machine_inv \<lparr>machineServer = s, pcs = P, pushers = G\<rparr>" and "sid < nextPtr s"
    and "nextPtr s' = nextPtr s" "heap s' = heap s" "same_limits s s'"
    and "pc_ok (heap s sid) p" "refs_ok (bucketRefs s')"
    and "\<And>k. get_or 0 (bucketRefs s') k = get_or 0 (bucketRefs s) k + held p (heap s sid) k - held (P sid) (heap s sid) k"
    and "\<And>l. ActiveBuckets (metrics s') l = ActiveBuckets (metrics s) l + shown p (heap s sid) l - shown (P sid) (heap s sid) l"
    and "ActiveStreams (metrics s') = ActiveStreams (metrics s) + counted p - counted (P sid)"
    and "streams s' = (if registered (P sid) \<and> \<not> registered p then remove1 sid (streams s) else streams s)"
      "registered p \<longrightarrow> registered (P sid)"
  shows "machine_inv \<lparr>machineServer = s', pcs = P(sid := p), pushers = G'\<rparr>"
  using assms by (intro machine_inv_local [where ss' = "heap s sid", OF assms(1,2)]) (simp_all add: machine_inv_def Let_def)

section \<open>Every step keeps the accounts\<close>

named_theorems fine_frames \<open>fields left alone by the parts of a step\<close>

lemma count_streams_frame [fine_frames]:
  "heap (count_streams n s) = heap s" "nextPtr (count_streams n s) = nextPtr s" "streams (count_streams n s) = streams s"
  "bucketRefs (count_streams n s) = bucketRefs s" "same_limits s' (count_streams n s) = same_limits s' s"
  "ActiveBuckets (metrics (count_streams n s)) = ActiveBuckets (metrics s)"
  "ActiveStreams (metrics (count_streams n s)) = ActiveStreams (metrics s) + n"
  by (simp_all add: count_streams_def upd_metrics_def same_limits_def)

lemma add_ref_frame [fine_frames]:
  "heap (add_ref d key s) = heap s" "nextPtr (add_ref d key s) = nextPtr s" "streams (add_ref d key s) = streams s"
  "metrics (add_ref d key s) = metrics s" "same_limits s' (add_ref d key s) = same_limits s' s"
  "get_or 0 (bucketRefs (add_ref d key s)) k = get_or 0 (bucketRefs s) k + one_if (DomainScopedKey d key = k)"
  by (auto simp: add_ref_def Let_def same_limits_def gomap_simps one_if_def)

lemma inc_active_buckets_frame [fine_frames]:
  "heap (inc_active_buckets l s) = heap s" "nextPtr (inc_active_buckets l s) = nextPtr s"
  "streams (inc_active_buckets l s) = streams s" "bucketRefs (inc_active_buckets l s) = bucketRefs s"
  "same_limits s' (inc_active_buckets l s) = same_limits s' s"
  "ActiveStreams (metrics (inc_active_buckets l s)) = ActiveStreams (metrics s)"
  "ActiveBuckets (metrics (inc_active_buckets l s)) l' = ActiveBuckets (metrics s) l' + one_if (l = l')"
  by (auto simp: inc_active_buckets_def upd_metrics_def same_limits_def add_label_def one_if_def)

lemma dec_active_buckets_shown [fine_frames]:
  "ActiveBuckets (metrics (dec_active_buckets l s)) l' = ActiveBuckets (metrics s) l' - one_if (l = l')"
  by (auto simp: one_if_def)

lemma counters_frame [fine_frames]:
  "heap (count_reports l n s) = heap s" "nextPtr (count_reports l n s) = nextPtr s" "streams (count_reports l n s) = streams s"
  "same_limits s' (count_reports l n s) = same_limits s' s" "ActiveStreams (metrics (count_reports l n s)) = ActiveStreams (metrics s)"
  "ActiveBuckets (metrics (count_reports l n s)) = ActiveBuckets (metrics s)"
  "heap (add_assignments l n s) = heap s" "nextPtr (add_assignments l n s) = nextPtr s" "streams (add_assignments l n s) = streams s"
  "same_limits s' (add_assignments l n s) = same_limits s' s" "ActiveStreams (metrics (add_assignments l n s)) = ActiveStreams (metrics s)"
  "ActiveBuckets (metrics (add_assignments l n s)) = ActiveBuckets (metrics s)"
  by (simp_all add: count_reports_def add_assignments_def upd_metrics_def same_limits_def)

lemma store_frame [fine_frames]:
  "heap (record_report ops ctx sid r s) = heap s" "nextPtr (record_report ops ctx sid r s) = nextPtr s"
  "streams (record_report ops ctx sid r s) = streams s" "bucketRefs (record_report ops ctx sid r s) = bucketRefs s"
  "same_limits s' (record_report ops ctx sid r s) = same_limits s' s" "metrics (record_report ops ctx sid r s) = metrics s"
  "heap (remove_bucket ops ctx d key s) = heap s" "nextPtr (remove_bucket ops ctx d key s) = nextPtr s"
  "streams (remove_bucket ops ctx d key s) = streams s" "bucketRefs (remove_bucket ops ctx d key s) = bucketRefs s"
  "same_limits s' (remove_bucket ops ctx d key s) = same_limits s' s" "metrics (remove_bucket ops ctx d key s) = metrics s"
  by (simp_all add: record_report_def remove_bucket_def same_limits_def split_beta)

lemma release_ref_split:
  "release_ref ops ctx d key s =
    (case release_locked d key s of (s1, rm) \<Rightarrow> if rm then remove_bucket ops ctx d key s1 else s1)"
  by (simp add: release_ref_def release_locked_def remove_bucket_def Let_def split_beta)

lemma release_locked_frame:
  assumes "release_locked d key s = (s', rm)"
  shows "heap s' = heap s" "streams s' = streams s" "nextPtr s' = nextPtr s" "metrics s' = metrics s" "same_limits s s'"
  using assms by (auto simp: release_locked_def Let_def same_limits_def split: if_splits)

lemma release_locked_refs:
  assumes "release_locked d key s = (s', rm)"
    and "refs_ok (bucketRefs s)" and "get_or 0 (bucketRefs s) (DomainScopedKey d key) \<ge> 1"
  shows "refs_ok (bucketRefs s')" "get_or 0 (bucketRefs s') k = get_or 0 (bucketRefs s) k - one_if (DomainScopedKey d key = k)"
proof -
  have "bucketRefs (release_ref ops Background d key s) = bucketRefs s'" for ops
    using assms(1) by (simp add: release_ref_split remove_bucket_def)
  then show "refs_ok (bucketRefs s')"
    "get_or 0 (bucketRefs s') k = get_or 0 (bucketRefs s) k - one_if (DomainScopedKey d key = k)"
    using release_ref_refs [OF assms(2,3), of _ Background] unfolding one_if_def by metis+
qed

lemma held_le:
  assumes "machine_inv \<lparr>machineServer = s, pcs = P, pushers = G\<rparr>" and "sid < nextPtr s"
  shows "held (P sid) (heap s sid) k \<le> get_or 0 (bucketRefs s) k"
proof -
  have "held (P sid) (heap s sid) k \<le> (\<Sum>i<nextPtr s. held (P i) (heap s i) k)"
    using assms by (intro member_le_sum) (auto simp: machine_inv_def Let_def held_nonneg)
  then show ?thesis using assms(1) by (simp add: machine_inv_def Let_def)
qed

lemma machine_inv_release:
  assumes inv: "machine_inv \<lparr>machineServer = s, pcs = P, pushers = G\<rparr>" and sid: "sid < nextPtr s"
    and rel: "release_locked (domain (heap s sid)) key s = (s', rm)"
    and held: "\<And>k. held (P sid) (heap s sid) k = held p (heap s sid) k + one_if (DomainScopedKey (domain (heap s sid)) key = k)"
    and same: "\<And>l. shown p (heap s sid) l = shown (P sid) (heap s sid) l" "counted p = counted (P sid)"
      "registered p = registered (P sid)" and ok: "pc_ok (heap s sid) p"
  shows "machine_inv \<lparr>machineServer = s', pcs = P(sid := p), pushers = G\<rparr>"
proof -
  let ?k = "DomainScopedKey (domain (heap s sid)) key"
  have "get_or 0 (bucketRefs s) ?k \<ge> 1"
    using held_le [OF inv sid, of ?k] held [of ?k] held_nonneg [OF ok, of ?k] by simp
  moreover have "refs_ok (bucketRefs s)" using inv by (simp add: machine_inv_def Let_def)
  ultimately show ?thesis
    using release_locked_refs [OF rel] release_locked_frame [OF rel] held same ok
    by (intro machine_inv_same_heap [OF inv sid]) simp_all
qed

lemma machine_inv_moved:
  assumes "machine_inv \<lparr>machineServer = s, pcs = P, pushers = G\<rparr>" and "sid < nextPtr s"
    and "nextPtr s' = nextPtr s" "heap s' = heap s" "same_limits s s'" "bucketRefs s' = bucketRefs s" "streams s' = streams s"
      "ActiveBuckets (metrics s') = ActiveBuckets (metrics s)" "ActiveStreams (metrics s') = ActiveStreams (metrics s)"
    and "pc_ok (heap s sid) p" "\<And>k. held p (heap s sid) k = held (P sid) (heap s sid) k"
      "\<And>l. shown p (heap s sid) l = shown (P sid) (heap s sid) l" "counted p = counted (P sid)" "registered p = registered (P sid)"
  shows "machine_inv \<lparr>machineServer = s', pcs = P(sid := p), pushers = G\<rparr>"
  using assms by (intro machine_inv_same_heap [OF assms(1,2)]) (simp_all add: machine_inv_def Let_def)

lemma usage_step_cases:
  assumes "usage_step sid u us rs s = (s', p)"
  obtains (moved) "s' = s" "p = AtUsages us rs \<or> p = AtRecord u us rs \<or> (\<exists>e. p = AtReturn e)"
    | (new) bid where "Bucket bid \<noteq> []" "validate_bucket s (Bucket bid) = None"
      "BucketKeyFromProto (Some bid) \<notin> set (keys (subscriptions (heap s sid)))"
      "maxBucketsPerStream s > 0 \<longrightarrow> int (length (subscriptions (heap s sid))) < maxBucketsPerStream s"
      "s' = upd_stream sid (\<lambda>ss. ss\<lparr>subscriptions := AList.update (BucketKeyFromProto (Some bid)) bid (subscriptions ss)\<rparr>) s"
      "p = AtRef (BucketKeyFromProto (Some bid)) u us rs" "GetBucketId u = Some bid"
proof (cases "GetBucketId u")
  case None
  then show ?thesis using assms moved by (simp add: usage_step_def)
next
  case (Some bid)
  show ?thesis
  proof (cases "Bucket bid = [] \<or> validate_bucket s (Bucket bid) \<noteq> None
      \<or> BucketKeyFromProto (Some bid) \<in> set (keys (subscriptions (heap s sid)))
      \<or> (maxBucketsPerStream s > 0 \<and> int (length (subscriptions (heap s sid))) \<ge> maxBucketsPerStream s)")
    case True
    then show ?thesis using assms Some moved
      by (cases "validate_bucket s (Bucket bid)") (auto simp: usage_step_def Let_def split: if_splits)
  next
    case False
    then show ?thesis using assms Some new [of bid] by (auto simp: usage_step_def Let_def)
  qed
qed

lemma machine_inv_usage:
  assumes inv: "machine_inv \<lparr>machineServer = s, pcs = P, pushers = G\<rparr>" and sid: "sid < nextPtr s"
    and P: "P sid = AtUsages (u # us) rs" and step: "usage_step sid u us rs s = (s', p)"
  shows "machine_inv \<lparr>machineServer = s', pcs = P(sid := p), pushers = G\<rparr>"
proof -
  have ss: "stream_ok s (heap s sid)" "domainBound (heap s sid)" and rok: "refs_ok (bucketRefs s)"
    using inv sid P by (auto simp: machine_inv_def Let_def dest!: spec [of _ sid])
  from step show ?thesis
  proof (cases rule: usage_step_cases)
    case moved
    then show ?thesis using P ss(2) by (intro machine_inv_moved [OF inv sid]) auto
  next
    case (new bid)
    let ?key = "BucketKeyFromProto (Some bid)" and ?old = "heap s sid"
    let ?ss = "?old\<lparr>subscriptions := AList.update ?key bid (subscriptions ?old)\<rparr>"
    have "stream_ok s ?ss" using ss new(1-4) by (auto simp: stream_ok_def keys_update_new)
    moreover have "gauge_of ?ss l = gauge_of ?old l + one_if (metricDomain ?old = l)" for l
      using new(3) by (simp add: gauge_of_def keys_update_new one_if_def)
    ultimately show ?thesis
      using new(5,6) ss(2) rok P refs_of_add [OF new(3)]
      by (intro machine_inv_local [where ss' = ?ss, OF inv sid])
        (auto simp: upd_stream_def same_limits_def one_if_def gomap_simps)
  qed
qed

lemma machine_inv_abandon:
  assumes inv: "machine_inv \<lparr>machineServer = s, pcs = P, pushers = G\<rparr>" and sid: "sid < nextPtr s"
    and P: "P sid = AtAbandon (a # as) acts" and step: "abandon_step sid a as acts s = (s', p)"
  shows "machine_inv \<lparr>machineServer = s', pcs = P(sid := p), pushers = G\<rparr>"
proof (cases "is_abandon a \<and> BucketKeyFromProto (ActionBucketId a) \<in> set (keys (subscriptions (heap s sid)))")
  case False
  then show ?thesis
    using step P inv sid by (intro machine_inv_moved [OF inv sid]) (auto simp: abandon_step_def Let_def machine_inv_def dest!: spec [of _ sid])
next
  case True
  let ?key = "BucketKeyFromProto (ActionBucketId a)" and ?old = "heap s sid"
  let ?ss = "?old\<lparr>subscriptions := AList.delete ?key (subscriptions ?old)\<rparr>"
  have ss: "stream_ok s ?old" "domainBound ?old" and rok: "refs_ok (bucketRefs s)"
    using inv sid P by (auto simp: machine_inv_def Let_def dest!: spec [of _ sid])
  have wf: "wf_map (subscriptions ?old)" and mem: "?key \<in> set (keys (subscriptions ?old))"
    using ss(1) True by (simp_all add: stream_ok_def)
  have "stream_ok s ?ss"
    using ss(1) length_delete [of ?key "subscriptions ?old"] set_delete_subset [of ?key "subscriptions ?old"]
    by (auto simp: stream_ok_def)
  moreover have "gauge_of ?old l = gauge_of ?ss l + one_if (metricDomain ?old = l)" for l
    using length_delete_in [OF wf mem] by (simp add: gauge_of_def one_if_def)
  ultimately show ?thesis
    using step True P ss(2) rok refs_of_delete [OF wf mem]
    by (intro machine_inv_local [where ss' = ?ss, OF inv sid])
      (auto simp: abandon_step_def Let_def upd_stream_def same_limits_def one_if_def)
qed

lemma stream_ok_delivered [simp]:
  "stream_ok s (ss\<lparr>delivered := ds\<rparr>) = stream_ok s ss" "refs_of (ss\<lparr>delivered := ds\<rparr>) = refs_of ss"
  "gauge_of (ss\<lparr>delivered := ds\<rparr>) = gauge_of ss"
  by (simp_all add: stream_ok_def refs_of_def gauge_of_def fun_eq_iff)

lemma pc_ok_delivered [simp]: "pc_ok (ss\<lparr>delivered := ds\<rparr>) p = pc_ok ss p"
  by (cases "(ss, p)" rule: pc_ok.cases) simp_all

lemma held_delivered [simp]: "held p (ss\<lparr>delivered := ds\<rparr>) k = held p ss k" "shown p (ss\<lparr>delivered := ds\<rparr>) l = shown p ss l"
  by (cases p; simp)+

text \<open>Both the stream's own goroutine and a push goroutine send on a stream; sending moves no count.\<close>

lemma machine_inv_send:
  assumes inv: "machine_inv \<lparr>machineServer = s, pcs = P, pushers = G\<rparr>" and send: "send_response x resp s = (s', err)"
  shows "machine_inv \<lparr>machineServer = s', pcs = P, pushers = G'\<rparr>"
proof -
  have "\<exists>ds. heap s' = (heap s)(x := (heap s x)\<lparr>delivered := ds\<rparr>)"
    using send by (auto simp: send_response_def upd_stream_def split: option.splits intro: exI [of _ "delivered (heap s x)"])
  then obtain ds where heap: "heap s' = (heap s)(x := (heap s x)\<lparr>delivered := ds\<rparr>)" by blast
  have frame: "nextPtr s' = nextPtr s" "streams s' = streams s" "same_limits s s'" "bucketRefs s' = bucketRefs s" "metrics s' = metrics s"
    using send by (auto simp: send_response_def upd_stream_def same_limits_def split: option.splits)
  have accounts: "held p (heap s' i) k = held p (heap s i) k" "shown p (heap s' i) l = shown p (heap s i) l"
      "stream_ok s (heap s' i) = stream_ok s (heap s i)" "pc_ok (heap s' i) p = pc_ok (heap s i) p" for i p k l
    by (simp_all add: heap)
  show ?thesis using inv by (simp add: machine_inv_def Let_def frame accounts stream_ok_cong [OF frame(3)])
qed

lemma machine_inv_bind:
  assumes inv: "machine_inv \<lparr>machineServer = s, pcs = P, pushers = G\<rparr>" and sid: "sid < nextPtr s"
    and P: "P sid = AtRecv" and step: "bind_step sid req s = (s', p)"
  shows "machine_inv \<lparr>machineServer = s', pcs = P(sid := p), pushers = G\<rparr>"
proof -
  let ?ss = "heap (fst (bind_domain sid req s)) sid"
  have ss: "stream_ok s (heap s sid)" and rok: "refs_ok (bucketRefs s)" using inv sid by (auto simp: machine_inv_def Let_def)
  have bound: "domainBound ?ss" if "snd (bind_domain sid req s) = None"
    using that bind_domain_bound [of sid req s] by (cases "bind_domain sid req s") auto
  have s': "s' = fst (bind_domain sid req s)" and p: "p = AtRecv \<or> (\<exists>e. p = AtReturn e) \<or> (domainBound ?ss \<and> (\<exists>us. p = AtUsages us []))"
    using step bound by (auto simp: bind_step_def Let_def split: prod.splits option.splits if_splits)
  have frame: "nextPtr s' = nextPtr s" "heap s' = (heap s)(sid := ?ss)" "same_limits s s'" "streams s' = streams s"
      "bucketRefs s' = bucketRefs s" "metrics s' = metrics s"
    unfolding s' by (auto simp: bind_domain_def classifyDomain_def upd_stream_def same_limits_def Let_def split_beta fun_eq_iff)
  have keeps: "?ss = heap s sid \<or> (\<not> domainBound (heap s sid) \<and> (\<exists>d l. d \<noteq> [] \<and> ?ss = (heap s sid)\<lparr>domain := d, metricDomain := l, domainBound := True\<rparr>))"
    by (auto simp: bind_domain_def classifyDomain_def upd_stream_def Let_def split_beta)
  then have "stream_ok s ?ss" "refs_of ?ss = refs_of (heap s sid)" "gauge_of ?ss = gauge_of (heap s sid)"
    using ss by (auto simp: stream_ok_def refs_of_def gauge_of_def fun_eq_iff)
  then show ?thesis
    using p P frame rok by (intro machine_inv_local [where ss' = ?ss, OF inv sid]) auto
qed

lemma machine_inv_engine:
  assumes inv: "machine_inv \<lparr>machineServer = s, pcs = P, pushers = G\<rparr>" and sid: "sid < nextPtr s"
    and P: "P sid = AtEngine rs" and step: "engine_step sid rs s = (s', p)"
  shows "machine_inv \<lparr>machineServer = s', pcs = P(sid := p), pushers = G\<rparr>"
proof -
  have "domainBound (heap s sid)" using inv sid P by (auto simp: machine_inv_def Let_def dest!: spec [of _ sid])
  then have "p = AtRecv \<or> (\<exists>e. p = AtReturn e) \<or> (domainBound (heap s sid) \<and> (\<exists>as. p = AtAbandon as as))"
    using step by (auto simp: engine_step_def Let_def split: sum.splits if_splits)
  moreover have "heap s' = heap s" "nextPtr s' = nextPtr s" "streams s' = streams s" "bucketRefs s' = bucketRefs s" "same_limits s s'"
      "ActiveBuckets (metrics s') = ActiveBuckets (metrics s)" "ActiveStreams (metrics s') = ActiveStreams (metrics s)"
    using step by (auto simp: engine_step_def Let_def upd_metrics_def add_assignments_def same_limits_def split: sum.splits if_splits)
  ultimately show ?thesis using P by (intro machine_inv_moved [OF inv sid]) auto
qed

lemma machine_inv_deregister:
  assumes inv: "machine_inv \<lparr>machineServer = s, pcs = P, pushers = G\<rparr>" and sid: "sid < nextPtr s"
    and P: "P sid = AtDeregister e" and step: "deregister_step sid e s = (s', p)"
  shows "machine_inv \<lparr>machineServer = s', pcs = P(sid := p), pushers = G\<rparr>"
proof -
  let ?ss = "heap s sid"
  have ok: "stream_ok s ?ss" using inv sid by (simp add: machine_inv_def Let_def)
  have "held p ?ss k = refs_of ?ss k" "shown p ?ss l = gauge_of ?ss l" for k l
    using step ok by (auto simp: deregister_step_def stream_ok_def refs_of_def gauge_of_def keys_at_def key_count_def one_if_def)
  moreover have "\<not> registered p" "counted p = 0" "pc_ok ?ss p" and s': "s' = s\<lparr>streams := remove1 sid (streams s)\<rparr>"
    using step by (auto simp: deregister_step_def split: if_splits)
  ultimately show ?thesis
    using P inv by (intro machine_inv_same_heap [OF inv sid]) (auto simp: machine_inv_def Let_def same_limits_def)
qed

lemma machine_inv_run:
  assumes inv: "machine_inv \<lparr>machineServer = s, pcs = P, pushers = G\<rparr>" and sid: "sid < nextPtr s"
    and step: "stream_step ops sid (P sid) s = (s', p)"
  shows "machine_inv \<lparr>machineServer = s', pcs = P(sid := p), pushers = G\<rparr>"
proof -
  have rok: "refs_ok (bucketRefs s)" and ok: "pc_ok (heap s sid) (P sid)" using inv sid by (simp_all add: machine_inv_def Let_def)
  note moved = machine_inv_moved [OF inv sid] and same_heap = machine_inv_same_heap [OF inv sid]
  show ?thesis
  proof (cases "P sid")
    case (AtUsages us rs)
    then show ?thesis using step ok machine_inv_usage [OF inv sid]
      by (cases us) (auto simp: fine_frames intro!: moved)
  next
    case (AtRef key u us rs)
    have "refs_ok (bucketRefs (add_ref d key s))" for d
      using rok refs_ok_nonneg [OF rok, of "DomainScopedKey d key"] by (simp add: add_ref_def Let_def refs_ok_update)
    then show ?thesis using step ok AtRef by (auto simp: fine_frames intro!: same_heap)
  next
    case (AtEngine rs)
    then show ?thesis using step machine_inv_engine [OF inv sid] by simp
  next
    case (AtAbandon as acts)
    show ?thesis
    proof (cases as)
      case Nil
      obtain err where send: "send_response sid \<lparr>GetBucketAction = acts\<rparr> s = (s', err)"
          and p: "p = (case err of None \<Rightarrow> AtRecv | Some e \<Rightarrow> AtReturn (Some e))"
        using step AtAbandon Nil by (auto split: prod.splits option.splits)
      have inv': "machine_inv \<lparr>machineServer = s', pcs = P, pushers = G\<rparr>" by (rule machine_inv_send [OF inv send])
      have "nextPtr s' = nextPtr s" using send by (auto simp: send_response_def upd_stream_def split: option.splits)
      then show ?thesis
        using sid p AtAbandon by (intro machine_inv_moved [OF inv']) (auto split: option.splits)
    qed (use step AtAbandon machine_inv_abandon [OF inv sid] in simp)
  next
    case (AtRelease key as acts)
    then show ?thesis using step ok machine_inv_release [OF inv sid] by (auto split: prod.splits)
  next
    case (AtDeregister e)
    then show ?thesis using step machine_inv_deregister [OF inv sid] by simp
  next
    case (AtCleanup ks e)
    then show ?thesis using step rok by (cases ks) (auto simp: fine_frames algebra_simps intro!: same_heap)
  next
    case (AtCleanupRelease key ks e)
    then show ?thesis using step machine_inv_release [OF inv sid] by (auto split: prod.splits)
  qed (use step ok rok in \<open>auto simp: fine_frames intro!: same_heap\<close>)
qed

lemma machine_inv_same_shape:
  assumes "machine_inv \<lparr>machineServer = s, pcs = P, pushers = G\<rparr>"
    and "nextPtr s' = nextPtr s" "heap s' = heap s" "streams s' = streams s" "same_limits s s'" "bucketRefs s' = bucketRefs s"
      "ActiveBuckets (metrics s') = ActiveBuckets (metrics s)" "ActiveStreams (metrics s') = ActiveStreams (metrics s)"
  shows "machine_inv \<lparr>machineServer = s', pcs = P, pushers = G'\<rparr>"
  using assms stream_ok_cong [OF assms(5)] by (simp add: machine_inv_def Let_def)

lemma machine_inv_open:
  assumes "machine_inv \<lparr>machineServer = s, pcs = P, pushers = G\<rparr>"
  shows "machine_inv \<lparr>machineServer = register g s, pcs = P(nextPtr s := AtOpened), pushers = G\<rparr>"
proof -
  have oks: "stream_ok (register g s) ss = stream_ok s ss" for ss
    by (rule stream_ok_cong) (simp add: register_def same_limits_def)
  show ?thesis
    using assms unfolding machine_inv_def Let_def Machine.simps oks
    by (auto simp: register_def stream_ok_new new_stream_empty less_Suc_eq)
qed

lemma push_next_frame:
  assumes "push_next e sid sids s = (s', g)"
  shows "nextPtr s' = nextPtr s" "heap s' = heap s" "streams s' = streams s" "same_limits s s'" "bucketRefs s' = bucketRefs s"
    "ActiveBuckets (metrics s') = ActiveBuckets (metrics s)" "ActiveStreams (metrics s') = ActiveStreams (metrics s)"
    "store s' = store s"
  using assms by (auto simp: push_next_def Let_def add_assignments_def upd_metrics_def same_limits_def split: sum.splits if_splits)

lemma machine_inv_step: "fine_step ops m m' \<Longrightarrow> machine_inv m \<Longrightarrow> machine_inv m'"
proof (induction rule: fine_step.induct)
  case (fine_open s P G g)
  then show ?case using machine_inv_open by blast
next
  case (fine_message sid s P req s' p G)
  then show ?case using machine_inv_bind by blast
next
  case (fine_hangup sid s P e err G)
  then show ?case by (intro machine_inv_moved [OF fine_hangup(4,1)]) auto
next
  case (fine_run sid s P s' p G)
  then show ?case using machine_inv_run by blast
next
  case (fine_swap e s s' P G)
  then show ?case
    by (intro machine_inv_same_shape [OF fine_swap(2)]) (auto simp: SwapEngine_def engine_Store_def same_limits_def split: if_splits)
next
  case (fine_push_next e sid sids s s' g P G G')
  then show ?case using push_next_frame [OF fine_push_next(1)] by (intro machine_inv_same_shape [OF fine_push_next(2)])
next
  case (fine_push_send sid resp s s' err P G e sids G')
  then show ?case using machine_inv_send by blast
qed (erule machine_inv_same_shape; simp add: SwapDomainClassifier_def same_limits_def)+

lemma machine_inv_steps: "fine_steps ops m m' \<Longrightarrow> machine_inv m \<Longrightarrow> machine_inv m'"
  by (induction rule: rtranclp_induct) (auto intro: machine_inv_step)

lemma machine_inv_start: "machine_inv (start_machine (NewRLQS compile st eng cfg cl))"
  by (simp add: machine_inv_def start_machine_def NewRLQS_def fresh_metrics_def refs_ok_def)

section \<open>Machines at rest\<close>

lemma resting_sum:
  assumes "machine_inv m" and "resting m" and "\<forall>p ss. \<not> running p \<longrightarrow> h p ss = (if registered p then f ss else 0)"
  shows "(\<Sum>sid<nextPtr (machineServer m). h (pcs m sid) (heap (machineServer m) sid)) =
    (\<Sum>sid\<leftarrow>streams (machineServer m). f (heap (machineServer m) sid) :: int)"
proof -
  let ?s = "machineServer m"
  have regs: "set (streams ?s) = {sid. sid < nextPtr ?s \<and> registered (pcs m sid)}" "distinct (streams ?s)"
    using assms(1) by (simp_all add: machine_inv_def Let_def)
  have "(\<Sum>sid<nextPtr ?s. h (pcs m sid) (heap ?s sid)) = (\<Sum>sid<nextPtr ?s. if registered (pcs m sid) then f (heap ?s sid) else 0)"
    using assms(2,3) by (intro sum.cong) (auto simp: resting_def)
  also have "\<dots> = (\<Sum>sid\<in>{sid. sid < nextPtr ?s \<and> registered (pcs m sid)}. f (heap ?s sid))"
    by (simp add: sum.inter_filter [symmetric] lessThan_def)
  also have "\<dots> = (\<Sum>sid\<leftarrow>streams ?s. f (heap ?s sid))"
    using regs by (simp add: sum_list_distinct_conv_sum_set)
  finally show ?thesis .
qed

lemma not_running: "\<not> running p \<longleftrightarrow> p = AtRecv \<or> (\<exists>e. p = Gone e)"
  by (cases p) (simp_all add: running_def)

lemma resting_accounts:
  "\<not> running p \<Longrightarrow> counted p = (if registered p then 1 else 0)"
  "\<not> running p \<Longrightarrow> held p ss k = (if registered p then refs_of ss k else 0)"
  "\<not> running p \<Longrightarrow> shown p ss l = (if registered p then gauge_of ss l else 0)"
  by (auto simp: not_running)

lemma resting_waits:
  assumes "machine_inv m" and "resting m" and "sid \<in> set (streams (machineServer m))"
  shows "sid < nextPtr (machineServer m)" "pcs m sid = AtRecv"
proof -
  have "sid < nextPtr (machineServer m) \<and> registered (pcs m sid)"
    using assms(1,3) by (simp add: machine_inv_def Let_def)
  then show "sid < nextPtr (machineServer m)" "pcs m sid = AtRecv"
    using assms(2) by (auto simp: resting_def not_running)
qed

lemma machine_inv_resting:
  assumes "machine_inv m" and "resting m"
  shows "server_inv (machineServer m)"
proof -
  note sums = resting_sum [OF assms]
  have "(\<Sum>sid<nextPtr (machineServer m). counted (pcs m sid)) = int (length (streams (machineServer m)))"
    using sums [of "\<lambda>p ss. counted p" "\<lambda>_. 1"] by (simp add: resting_accounts sum_list_triv)
  moreover have "(\<Sum>sid<nextPtr (machineServer m). held (pcs m sid) (heap (machineServer m) sid) k) =
      (\<Sum>sid\<leftarrow>streams (machineServer m). refs_of (heap (machineServer m) sid) k)" for k
    using sums [of "\<lambda>p ss. held p ss k" "\<lambda>ss. refs_of ss k"] by (simp add: resting_accounts)
  moreover have "(\<Sum>sid<nextPtr (machineServer m). shown (pcs m sid) (heap (machineServer m) sid) l) =
      (\<Sum>sid\<leftarrow>streams (machineServer m). gauge_of (heap (machineServer m) sid) l)" for l
    using sums [of "\<lambda>p ss. shown p ss l" "\<lambda>ss. gauge_of ss l"] by (simp add: resting_accounts)
  ultimately show ?thesis
    using assms(1) by (simp add: machine_inv_def server_inv_def Let_def)
qed

end
