(* ===== verification/Schedules.thy ===== *)
theory Schedules
  imports Interleaving
begin

text \<open>
  Runs of the lock-granular machine of theory \<open>Interleaving\<close>: a goroutine that is not interrupted does
  what the atomic operation of theory \<open>Server\<close> does, so the reachable states of the atomic server are
  among the scheduled ones; handlers end under every interleaving; counts are exact whenever the
  machine rests; and a schedule that loses usage.
\<close>

section \<open>Uninterrupted goroutines are the atomic steps\<close>

definition own_step :: "'st BucketStore \<Rightarrow> nat \<Rightarrow> 'st RLQSServer \<times> pc \<Rightarrow> 'st RLQSServer \<times> pc \<Rightarrow> bool" where
  "own_step ops sid x y \<longleftrightarrow> running (snd x) \<and> stream_step ops sid (snd x) (fst x) = y"

abbreviation own_run :: "'st BucketStore \<Rightarrow> nat \<Rightarrow> 'st RLQSServer \<times> pc \<Rightarrow> 'st RLQSServer \<times> pc \<Rightarrow> bool" where
  "own_run ops sid \<equiv> rtranclp (own_step ops sid)"

definition after_message_pc :: "rpc_error option \<Rightarrow> pc" where
  "after_message_pc err = (case err of None \<Rightarrow> AtRecv | Some e \<Rightarrow> AtReturn (Some e))"

lemma own_run_step: "running p \<Longrightarrow> own_run ops sid (stream_step ops sid p s) y \<Longrightarrow> own_run ops sid (s, p) y"
  by (rule converse_rtranclp_into_rtranclp) (auto simp: own_step_def)

lemma running_simps [simp]:
  "running AtOpened" "running (AtUsages us rs)" "running (AtRef key u us rs)" "running (AtGauge u us rs)"
  "running (AtRecord u us rs)" "running (AtEngine rs)" "running (AtAbandon as acts)" "running (AtRelease key as acts)"
  "running (AtRemove key as acts)" "running (AtAbandonGauge as acts)" "running (AtReturn e)" "running (AtDeregister e)"
  "running (AtCleanup ks e)" "running (AtCleanupRelease key ks e)" "running (AtCleanupRemove key ks e)"
  "\<not> running AtRecv" "\<not> running (Gone e)"
  by (simp_all add: running_def)

lemma stream_step_nextPtr: "nextPtr (fst (stream_step ops sid p s)) = nextPtr s"
  by (cases "(ops, sid, p, s)" rule: stream_step.cases)
    (auto simp: fine_frames usage_step_def abandon_step_def engine_step_def deregister_step_def send_response_def
      upd_stream_def upd_metrics_def Let_def release_locked_def split: option.splits sum.splits)

lemma own_run_fine:
  assumes "own_run ops sid (s, p) y" and "sid < nextPtr s"
  shows "fine_steps ops \<lparr>machineServer = s, pcs = P(sid := p), pushers = G\<rparr>
    \<lparr>machineServer = fst y, pcs = P(sid := snd y), pushers = G\<rparr> \<and> nextPtr (fst y) = nextPtr s"
  using assms
proof (induction rule: rtranclp_induct)
  case (step x y)
  note ih = step.IH [OF step.prems]
  have "fine_step ops \<lparr>machineServer = fst x, pcs = P(sid := snd x), pushers = G\<rparr>
      \<lparr>machineServer = fst y, pcs = (P(sid := snd x))(sid := snd y), pushers = G\<rparr>"
    using step(2) step.prems ih by (intro fine_run) (auto simp: own_step_def)
  from rtranclp.rtrancl_into_rtrancl [OF conjunct1 [OF ih] this]
  have "fine_steps ops \<lparr>machineServer = s, pcs = P(sid := p), pushers = G\<rparr>
      \<lparr>machineServer = fst y, pcs = P(sid := snd y), pushers = G\<rparr>" by (simp only: fun_upd_upd)
  moreover have "nextPtr (fst y) = nextPtr (fst x)"
    using step(2) stream_step_nextPtr [of ops sid "snd x" "fst x"] by (auto simp: own_step_def)
  ultimately show ?case using ih by (simp only: simp_thms)
qed (simp only: fst_conv snd_conv simp_thms rtranclp.rtrancl_refl)

lemma own_run_release:
  "own_run ops sid (s, AtRelease key as acts)
    (dec_active_buckets (metricDomain (heap s sid)) (release_ref ops (stream_ctx sid s) (domain (heap s sid)) key s), AtAbandon as acts)"
proof -
  obtain s1 rm where rel: "release_locked (domain (heap s sid)) key s = (s1, rm)"
    by (cases "release_locked (domain (heap s sid)) key s")
  have heap: "heap s1 = heap s" by (rule release_locked_frame [OF rel])
  show ?thesis
    by (cases rm; rule own_run_step; simp add: rel)
      (rule own_run_step; simp add: release_ref_split rel heap stream_ctx_def remove_bucket_def; rule own_run_step; simp add: remove_bucket_def heap)+
qed

lemma own_run_cleanup:
  "own_run ops sid (s, AtCleanup ks e) (cleanup_keys ops (domain (heap s sid)) (metricDomain (heap s sid)) ks s, Gone e)"
proof (induction ks arbitrary: s)
  case Nil
  show ?case by (rule own_run_step) simp_all
next
  case (Cons key ks)
  let ?t = "dec_active_buckets (metricDomain (heap s sid)) s"
  obtain s1 rm where rel: "release_locked (domain (heap s sid)) key ?t = (s1, rm)"
    by (cases "release_locked (domain (heap s sid)) key ?t")
  let ?u = "if rm then remove_bucket ops Background (domain (heap s sid)) key s1 else s1"
  have heap: "heap ?u = heap s" "heap s1 = heap s" using release_locked_frame [OF rel] by (simp_all add: fine_frames)
  have "own_run ops sid (s1, if rm then AtCleanupRemove key ks e else AtCleanup ks e)
      (cleanup_keys ops (domain (heap s sid)) (metricDomain (heap s sid)) ks ?u, Gone e)"
    using Cons.IH [of ?u] heap by (cases rm) (auto intro: own_run_step)
  then have "own_run ops sid (?t, AtCleanupRelease key ks e)
      (cleanup_keys ops (domain (heap s sid)) (metricDomain (heap s sid)) ks ?u, Gone e)"
    by (intro own_run_step) (simp_all add: rel)
  then show ?case by (intro own_run_step [of "AtCleanup (key # ks) e"]) (simp_all add: rel release_ref_split)
qed

lemma own_run_close: "own_run ops sid (s, AtReturn e) (close_stream ops sid s, Gone e)"
proof -
  let ?d = "(count_streams (- 1) s)\<lparr>streams := remove1 sid (streams s)\<rparr>"
  have "own_run ops sid (deregister_step sid e (count_streams (- 1) s)) (close_stream ops sid s, Gone e)"
    using own_run_cleanup [of ops sid ?d "keys (subscriptions (heap s sid))" e]
    by (simp add: deregister_step_def close_stream_def cleanupStream_def Let_def count_streams_def upd_metrics_def)
  then show ?thesis by (intro own_run_step) (simp_all add: own_run_step)
qed

lemma own_run_usage:
  "own_run ops sid (s, AtUsages (u # us) rs)
    (case track_usage ops (stream_ctx sid s) sid u s of
       (s', Inl e) \<Rightarrow> (s', AtReturn (Some e))
     | (s', Inr None) \<Rightarrow> (s', AtUsages us rs)
     | (s', Inr (Some r)) \<Rightarrow> (s', AtUsages us (rs @ [r])))"
proof (cases "usage_step sid u us rs s" rule: prod.exhaust)
  case (Pair s1 p)
  from Pair show ?thesis
  proof (cases rule: usage_step_cases)
    case (new bid)
    let ?key = "BucketKeyFromProto (Some bid)" and ?ss = "heap s sid"
    let ?s2 = "add_ref (domain ?ss) ?key s1"
    let ?s3 = "inc_active_buckets (metricDomain ?ss) ?s2"
    have ss: "domain (heap s1 sid) = domain ?ss" "metricDomain (heap s1 sid) = metricDomain ?ss" "stream (heap s1 sid) = stream ?ss"
      by (simp_all add: new(5) upd_stream_def)
    have sub: "subscribe sid ?key bid s = (?s3, None)"
      using new(3,4) by (simp add: subscribe_def Let_def new(5) add_ref_def inc_active_buckets_def upd_stream_def not_le)
    have rec: "own_run ops sid (?s3, AtRecord u us rs) (record_report ops (stream_ctx sid s) sid (report_of u) ?s3, AtUsages us (rs @ [report_of u]))"
      by (intro own_run_step) (simp_all add: stream_ctx_def fine_frames ss)
    have "own_run ops sid (?s2, AtGauge u us rs) (record_report ops (stream_ctx sid s) sid (report_of u) ?s3, AtUsages us (rs @ [report_of u]))"
      using rec by (intro own_run_step) (simp_all add: fine_frames ss)
    then have "own_run ops sid (s1, AtRef ?key u us rs) (record_report ops (stream_ctx sid s) sid (report_of u) ?s3, AtUsages us (rs @ [report_of u]))"
      by (intro own_run_step) (simp_all add: ss)
    then show ?thesis using new(1,2) by (intro own_run_step) (simp_all add: Pair new(6) track_usage_def new(7) sub)
  next
    case moved
    have seen: "own_run ops sid (s, AtRecord u us rs) (record_report ops (stream_ctx sid s) sid (report_of u) s, AtUsages us (rs @ [report_of u]))"
      by (intro own_run_step) simp_all
    show ?thesis
      using Pair moved seen
      by (intro own_run_step)
        (auto simp: usage_step_def track_usage_def subscribe_def Let_def split: option.splits if_splits)
  qed
qed

lemma own_run_usages:
  "own_run ops sid (s, AtUsages us rs)
    (case track_usages ops (stream_ctx sid s) sid us s of
       (s', Inl e) \<Rightarrow> (s', AtReturn (Some e))
     | (s', Inr rs') \<Rightarrow> (s', AtUsages [] (rs @ rs')))"
proof (induction us arbitrary: s rs)
  case (Cons u us)
  obtain s1 r where u: "track_usage ops (stream_ctx sid s) sid u s = (s1, r)" by (cases "track_usage ops (stream_ctx sid s) sid u s")
  have ctx: "stream_ctx sid s1 = stream_ctx sid s"
    using keeps_track_usage [of sid s ops "stream_ctx sid s" u] u by (simp add: keeps_def stream_ctx_def)
  show ?case
  proof (cases r)
    case (Inl e)
    then show ?thesis using own_run_usage [of ops sid s u us rs] u by simp
  next
    case (Inr ro)
    have "own_run ops sid (s, AtUsages (u # us) rs) (s1, AtUsages us (rs @ (case ro of None \<Rightarrow> [] | Some r \<Rightarrow> [r])))"
      using own_run_usage [of ops sid s u us rs] u Inr by (cases ro) simp_all
    from rtranclp_trans [OF this Cons.IH] show ?thesis
      unfolding ctx using u Inr by (cases ro) (auto split: prod.splits sum.splits)
  qed
qed simp

lemma own_run_actions:
  "own_run ops sid (s, AtAbandon as acts) (abandon_actions ops (stream_ctx sid s) sid as s, AtAbandon [] acts)"
proof (induction as arbitrary: s)
  case (Cons a as)
  let ?ctx = "stream_ctx sid s" and ?key = "BucketKeyFromProto (ActionBucketId a)"
  let ?s1 = "abandon_action ops ?ctx sid a s"
  have ctx: "stream_ctx sid ?s1 = ?ctx" using keeps_abandon_action [of sid s ops ?ctx a] by (simp add: keeps_def stream_ctx_def)
  have "own_run ops sid (s, AtAbandon (a # as) acts) (?s1, AtAbandon as acts)"
  proof (cases "is_abandon a \<and> ?key \<in> set (keys (subscriptions (heap s sid)))")
    case True
    let ?t = "upd_stream sid (\<lambda>ss. ss\<lparr>subscriptions := AList.delete ?key (subscriptions ss)\<rparr>) s"
    show ?thesis
      using True own_run_release [of ops sid ?t ?key as acts]
      by (intro own_run_step) (simp_all add: abandon_step_def abandon_action_def Let_def stream_ctx_def upd_stream_def)
  next
    case False
    then show ?thesis by (intro own_run_step) (auto simp: abandon_step_def abandon_action_def Let_def)
  qed
  from rtranclp_trans [OF this Cons.IH] show ?case unfolding ctx by simp
qed simp

lemma own_run_answer:
  "own_run ops sid (s, AtUsages [] rs)
    (fst (answer_reports ops (stream_ctx sid s) sid rs s), after_message_pc (snd (answer_reports ops (stream_ctx sid s) sid rs s)))"
proof -
  let ?ctx = "stream_ctx sid s" and ?s1 = "count_reports (metricDomain (heap s sid)) (length rs) s"
  have s1: "heap ?s1 = heap s" "engine ?s1 = engine s" "engine_ctx c ?s1 = engine_ctx c s" for c
    by (simp_all add: count_reports_def upd_metrics_def engine_ctx_def)
  have "own_run ops sid (?s1, AtEngine rs) (fst (answer_reports ops ?ctx sid rs s), after_message_pc (snd (answer_reports ops ?ctx sid rs s)))"
  proof (cases "ProcessUsage (engine s) (engine_ctx ?ctx s) (domain (heap s sid)) rs")
    case (Inl e)
    then show ?thesis by (intro own_run_step) (simp_all add: engine_step_def answer_reports_def Let_def s1 stream_ctx_def after_message_pc_def)
  next
    case (Inr acts)
    let ?s2 = "add_assignments (metricDomain (heap s sid)) (length acts) (upd_metrics (\<lambda>m. m\<lparr>EngineDuration := Suc (EngineDuration m)\<rparr>) ?s1)"
    let ?s3 = "abandon_actions ops ?ctx sid acts ?s2"
    have ctx: "stream_ctx sid ?s2 = ?ctx" by (simp add: stream_ctx_def add_assignments_def count_reports_def upd_metrics_def)
    have "own_run ops sid (?s3, AtAbandon [] acts) (fst (send_response sid \<lparr>GetBucketAction = acts\<rparr> ?s3),
        after_message_pc (snd (send_response sid \<lparr>GetBucketAction = acts\<rparr> ?s3)))"
      by (intro own_run_step) (auto simp: after_message_pc_def split: prod.splits option.splits)
    with own_run_actions [of ops sid ?s2 acts acts, unfolded ctx]
    have "own_run ops sid (?s2, AtAbandon acts acts) (fst (send_response sid \<lparr>GetBucketAction = acts\<rparr> ?s3),
        after_message_pc (snd (send_response sid \<lparr>GetBucketAction = acts\<rparr> ?s3)))" by (rule rtranclp_trans)
    then show ?thesis using Inr
      by (intro own_run_step) (simp_all add: engine_step_def answer_reports_def Let_def s1 stream_ctx_def after_message_pc_def)
  qed
  then show ?thesis by (intro own_run_step) simp_all
qed

lemma own_run_message:
  "own_run ops sid (bind_step sid req s)
    (fst (handleMessage ops sid req s), after_message_pc (snd (handleMessage ops sid req s)))"
proof -
  obtain s1 e1 where b: "bind_domain sid req s = (s1, e1)" by (cases "bind_domain sid req s")
  obtain s2 r where t: "track_usages ops (stream_ctx sid s) sid (GetBucketQuotaUsages req) s1 = (s2, r)"
    by (cases "track_usages ops (stream_ctx sid s) sid (GetBucketQuotaUsages req) s1")
  have ctx: "stream_ctx sid s1 = stream_ctx sid s" "stream_ctx sid s2 = stream_ctx sid s"
    using keeps_bind_domain [of sid s req] keeps_track_usages [of sid s1 ops "stream_ctx sid s" "GetBucketQuotaUsages req"] b t
    by (simp_all add: keeps_def stream_ctx_def)
  have loop: "own_run ops sid (s1, AtUsages (GetBucketQuotaUsages req) [])
      (case r of Inl e \<Rightarrow> (s2, AtReturn (Some e)) | Inr rs \<Rightarrow> (s2, AtUsages [] rs))"
    using own_run_usages [of ops sid s1 "GetBucketQuotaUsages req" "[]"] t by (simp add: ctx)
  have "own_run ops sid (s1, AtUsages (GetBucketQuotaUsages req) []) (case r of
      Inl e \<Rightarrow> (s2, AtReturn (Some e))
    | Inr rs \<Rightarrow> (fst (answer_reports ops (stream_ctx sid s) sid rs s2), after_message_pc (snd (answer_reports ops (stream_ctx sid s) sid rs s2))))"
  proof (cases r)
    case (Inr rs)
    then show ?thesis using rtranclp_trans [OF loop, of "(fst (answer_reports ops (stream_ctx sid s) sid rs s2), _)"]
        own_run_answer [of ops sid s2 rs] by (simp add: ctx)
  qed (use loop in simp)
  then show ?thesis
    using b t by (cases e1; cases r) (auto simp: bind_step_def handleMessage_def Let_def after_message_pc_def stream_ctx_def)
qed

lemma push_runs:
  "fine_steps ops \<lparr>machineServer = s, pcs = P, pushers = [PushNext e sids]\<rparr>
    \<lparr>machineServer = fold (push_stream e) sids s, pcs = P, pushers = []\<rparr>"
proof (induction sids arbitrary: s)
  case Nil
  show ?case using fine_push_done [of ops s P "[]" e "[]"] by auto
next
  case (Cons sid sids)
  let ?at = "\<lambda>s g. \<lparr>machineServer = s, pcs = P, pushers = [g]\<rparr>"
  obtain s1 g where nxt: "push_next e sid sids s = (s1, g)" by (cases "push_next e sid sids s")
  have first: "fine_step ops (?at s (PushNext e (sid # sids))) (?at s1 g)"
    using fine_push_next [OF nxt, of ops P "[]" "[]"] by simp
  have "fine_steps ops (?at s1 g) (?at (push_stream e sid s) (PushNext e sids))"
  proof (cases "g = PushNext e sids")
    case True
    then have "push_stream e sid s = s1"
      using nxt by (auto simp: push_next_def push_stream_def Let_def stream_ctx_def split: sum.splits if_splits)
    with True show ?thesis by simp
  next
    case False
    then obtain resp where g: "g = PushSend e sid resp sids" and "push_stream e sid s = fst (send_response sid resp s1)"
      using nxt by (auto simp: push_next_def push_stream_def Let_def stream_ctx_def split: sum.splits if_splits)
    then show ?thesis
      using fine_push_send [of sid resp s1 "push_stream e sid s" "snd (send_response sid resp s1)" ops P "[]" e sids "[]"]
      by (intro r_into_rtranclp) (simp add: g)
  qed
  with first Cons.IH show ?case by (auto intro: converse_rtranclp_into_rtranclp rtranclp_trans)
qed

text \<open>A message handled without interruption, its stream torn down if it fails.\<close>

lemma message_runs:
  assumes "sid < nextPtr s" and "P sid = AtRecv"
  shows "fine_steps ops \<lparr>machineServer = s, pcs = P, pushers = G\<rparr>
    \<lparr>machineServer = fst (handleMessage ops sid req s), pcs = P(sid := after_message_pc (snd (handleMessage ops sid req s))), pushers = G\<rparr>
    \<and> nextPtr (fst (handleMessage ops sid req s)) = nextPtr s"
proof -
  obtain s1 p where b: "bind_step sid req s = (s1, p)" by (cases "bind_step sid req s")
  have nxt: "nextPtr s1 = nextPtr s"
    using b keeps_bind_domain [of sid s req]
    by (auto simp: bind_step_def keeps_def Let_def split: prod.splits option.splits if_splits)
  have "fine_step ops \<lparr>machineServer = s, pcs = P, pushers = G\<rparr> \<lparr>machineServer = s1, pcs = P(sid := p), pushers = G\<rparr>"
    using fine_message [of sid s P, OF assms b] .
  moreover note own_run_fine [OF own_run_message [of ops sid req s, unfolded b], of P G, unfolded nxt fst_conv snd_conv, OF assms(1)]
  ultimately show ?thesis by (auto simp del: fun_upd_apply intro: converse_rtranclp_into_rtranclp)
qed

lemma close_runs:
  assumes "sid < nextPtr s"
  shows "fine_steps ops \<lparr>machineServer = s, pcs = P(sid := AtReturn e), pushers = G\<rparr>
    \<lparr>machineServer = close_stream ops sid s, pcs = P(sid := Gone e), pushers = G\<rparr>"
  using own_run_fine [OF own_run_close [of ops sid s e] assms, of P G] by simp

lemma resting_gone: "resting \<lparr>machineServer = s, pcs = P, pushers = []\<rparr> \<Longrightarrow> nextPtr s' = nextPtr s \<Longrightarrow> \<not> running p \<Longrightarrow>
    resting \<lparr>machineServer = s', pcs = P(sid := p), pushers = []\<rparr>"
  by (simp add: resting_def)

lemma atomic_step_runs:
  assumes "server_step ops s s'" and "machine_inv \<lparr>machineServer = s, pcs = P, pushers = []\<rparr>"
    and rest: "resting \<lparr>machineServer = s, pcs = P, pushers = []\<rparr>"
  shows "\<exists>P'. fine_steps ops \<lparr>machineServer = s, pcs = P, pushers = []\<rparr> \<lparr>machineServer = s', pcs = P', pushers = []\<rparr>
    \<and> resting \<lparr>machineServer = s', pcs = P', pushers = []\<rparr>"
proof -
  have waits: "sid < nextPtr s" "P sid = AtRecv" if "sid \<in> set (streams s)" for sid
    using resting_waits [OF assms(2) rest, of sid] that by simp_all
  from assms(1) show ?thesis
  proof cases
    case (step_open g)
    have "fine_steps ops \<lparr>machineServer = register g s, pcs = P(nextPtr s := AtOpened), pushers = []\<rparr>
        \<lparr>machineServer = s', pcs = P(nextPtr s := AtRecv), pushers = []\<rparr>"
      using fine_run [of "nextPtr s" "register g s" "P(nextPtr s := AtOpened)" ops s' AtRecv "[]"]
      by (intro r_into_rtranclp) (simp add: step_open open_stream_def register_def count_streams_def Let_def)
    moreover have "resting \<lparr>machineServer = s', pcs = P(nextPtr s := AtRecv), pushers = []\<rparr>"
      using rest by (auto simp: resting_def step_open open_stream_def Let_def upd_metrics_def less_Suc_eq)
    ultimately show ?thesis using converse_rtranclp_into_rtranclp [of "fine_step ops", OF fine_open] by blast
  next
    case (step_message sid req)
    note runs = message_runs [of sid s P ops "[]" req, OF waits [OF step_message(1)]]
    show ?thesis
      by (rule exI, rule conjI [OF conjunct1 [OF runs, unfolded step_message(2) fst_conv snd_conv]])
        (rule resting_gone [OF rest], use runs step_message(2) in \<open>simp_all add: after_message_pc_def\<close>)
  next
    case (step_failure sid req t e)
    note runs = message_runs [of sid s P ops "[]" req, OF waits [OF step_failure(2)], unfolded step_failure(3) fst_conv snd_conv after_message_pc_def option.case]
    have "sid < nextPtr t" using runs waits(1) [OF step_failure(2)] by simp
    note closed = rtranclp_trans [OF conjunct1 [OF runs] close_runs [OF this]]
    show ?thesis
      by (rule exI, rule conjI [OF closed [folded step_failure(1)]])
        (rule resting_gone [OF rest], use runs in \<open>simp_all add: step_failure(1) close_stream_def cleanupStream_def Let_def upd_metrics_def\<close>)
  next
    case (step_disconnect sid)
    note ready = waits [OF step_disconnect(2)]
    have "fine_step ops \<lparr>machineServer = s, pcs = P, pushers = []\<rparr> \<lparr>machineServer = s, pcs = P(sid := AtReturn None), pushers = []\<rparr>"
      using fine_hangup [of sid s P, OF ready] by blast
    note closed = converse_rtranclp_into_rtranclp [of "fine_step ops", OF this close_runs [OF ready(1)]]
    show ?thesis
      by (rule exI, rule conjI [OF closed [folded step_disconnect(1)]])
        (rule resting_gone [OF rest], simp_all add: step_disconnect(1) close_stream_def cleanupStream_def Let_def upd_metrics_def)
  next
    case (step_swap e)
    then show ?thesis using fine_swap [OF step_swap, of ops P "[]"] rest
      by (intro exI [of _ P]) (auto simp: resting_def SwapEngine_def engine_Store_def split: if_splits)
  next
    case (step_push i)
    let ?rest = "s\<lparr>pushes := take i (pushes s) @ drop (Suc i) (pushes s)\<rparr>"
    have "fine_step ops \<lparr>machineServer = s, pcs = P, pushers = []\<rparr> \<lparr>machineServer = ?rest, pcs = P, pushers = [PushNext (pushes s ! i) (streams s)]\<rparr>"
      using fine_push_start [OF id_take_nth_drop [OF step_push(2)], of ops P "[]"] by simp
    from converse_rtranclp_into_rtranclp [of "fine_step ops", OF this push_runs] show ?thesis
      using rest by (intro exI [of _ P]) (simp add: step_push(1) run_push_def pushAssignments_def resting_def push_fold_kept)
  next
    case (step_classifier c)
    then show ?thesis using fine_classifier [of ops s P "[]" c] rest
      by (intro exI [of _ P]) (auto simp: resting_def SwapDomainClassifier_def)
  qed
qed

lemma reachable_scheduled:
  assumes "reachable ops (NewRLQS compile st eng cfg cl) s"
  shows "\<exists>m. fine_steps ops (start_machine (NewRLQS compile st eng cfg cl)) m \<and> resting m \<and> machineServer m = s"
proof -
  let ?start = "start_machine (NewRLQS compile st eng cfg cl)"
  have "\<exists>P. fine_steps ops ?start \<lparr>machineServer = s, pcs = P, pushers = []\<rparr> \<and> resting \<lparr>machineServer = s, pcs = P, pushers = []\<rparr>"
    using assms
  proof (induction rule: reachable.induct)
    case reach_init
    show ?case by (rule exI [of _ "\<lambda>_. Gone None"]) (simp add: start_machine_def resting_def)
  next
    case (reach_step s s')
    then obtain P where P: "fine_steps ops ?start \<lparr>machineServer = s, pcs = P, pushers = []\<rparr>"
        "resting \<lparr>machineServer = s, pcs = P, pushers = []\<rparr>" by blast
    show ?case
      using atomic_step_runs [OF reach_step(2) machine_inv_steps [OF P(1) machine_inv_start] P(2)] P(1)
      by (meson rtranclp_trans)
  qed
  then show ?thesis by force
qed



section \<open>Handlers end under every interleaving\<close>

text \<open>How far a goroutine is from waiting or ending: its phase, and the steps left in the phase.\<close>

fun rank :: "pc \<Rightarrow> nat \<times> nat" where
  "rank AtOpened = (1, 0)"
| "rank AtRecv = (0, 0)"
| "rank (AtUsages us rs) = (3, 5 * length us + 1)"
| "rank (AtRef key u us rs) = (3, 5 * length us + 5)"
| "rank (AtGauge u us rs) = (3, 5 * length us + 4)"
| "rank (AtRecord u us rs) = (3, 5 * length us + 3)"
| "rank (AtEngine rs) = (3, 0)"
| "rank (AtAbandon as acts) = (2, 5 * length as + 1)"
| "rank (AtRelease key as acts) = (2, 5 * length as + 5)"
| "rank (AtRemove key as acts) = (2, 5 * length as + 4)"
| "rank (AtAbandonGauge as acts) = (2, 5 * length as + 3)"
| "rank (AtReturn e) = (1, 1)"
| "rank (AtDeregister e) = (1, 0)"
| "rank (AtCleanup ks e) = (0, 4 * length ks + 1)"
| "rank (AtCleanupRelease key ks e) = (0, 4 * length ks + 4)"
| "rank (AtCleanupRemove key ks e) = (0, 4 * length ks + 3)"
| "rank (Gone e) = (0, 0)"

lemma stream_step_rank:
  assumes "running p"
  shows "(rank (snd (stream_step ops sid p s)), rank p) \<in> less_than <*lex*> less_than"
  using assms
  by (cases "(ops, sid, p, s)" rule: stream_step.cases)
    (auto simp: usage_step_def abandon_step_def engine_step_def deregister_step_def Let_def
      split: option.splits sum.splits prod.splits if_splits)


definition run_own :: "'st BucketStore \<Rightarrow> nat \<Rightarrow> nat \<Rightarrow> 'st RLQSServer \<times> pc \<Rightarrow> 'st RLQSServer \<times> pc" where
  "run_own ops sid n = (\<lambda>(s, p). stream_step ops sid p s) ^^ n"


lemma own_run_iter: "own_run ops sid x (run_own ops sid n x)"
proof (induction n)
  case (Suc n)
  obtain s p where y: "run_own ops sid n x = (s, p)" by (cases "run_own ops sid n x")
  have "own_run ops sid (s, p) (stream_step ops sid p s)"
    by (cases "running p") (auto simp: own_step_def not_running)
  then show ?case using Suc y by (auto simp: run_own_def intro: rtranclp_trans)
qed (simp add: run_own_def)

section \<open>A lost update between cleanup and subscription\<close>

abbreviation race_key :: BucketKey where
  "race_key \<equiv> ''name'' @ [CHR 0x00] @ ''a''"

text \<open>
  Two streams of one domain: the first is subscribed to the bucket, the second only bound. The
  first is torn down up to its call of \<open>RemoveBucket\<close>, the second subscribes and records, the first
  removes the bucket and ends, the second gets its answer.
\<close>

definition race_start :: "MemoryStorage RLQSServer" where
  "race_start = fst (handleMessage MemoryStorage_store 1 \<lparr>GetDomain = ''d'', GetBucketQuotaUsages = []\<rparr>
     (snd (open_stream example_grpc example_run)))"

definition race_released :: "MemoryStorage RLQSServer \<times> pc" where
  "race_released = run_own MemoryStorage_store 0 4 (race_start, AtReturn None)"

definition race_recorded :: "MemoryStorage RLQSServer \<times> pc" where
  "race_recorded = run_own MemoryStorage_store 1 4 (bind_step 1 example_message (fst race_released))"

definition race_removed :: "MemoryStorage RLQSServer \<times> pc" where
  "race_removed = run_own MemoryStorage_store 0 2 (fst race_recorded, snd race_released)"

definition race_end :: "MemoryStorage RLQSServer \<times> pc" where
  "race_end = run_own MemoryStorage_store 1 4 (fst race_removed, snd race_recorded)"

lemma race_start_reachable: "reachable MemoryStorage_store example_init race_start"
proof -
  let ?open = "snd (open_stream example_grpc example_run)"
  have "snd (handleMessage MemoryStorage_store 1 \<lparr>GetDomain = ''d'', GetBucketQuotaUsages = []\<rparr> ?open) = None" by code_simp
  then have "handleMessage MemoryStorage_store 1 \<lparr>GetDomain = ''d'', GetBucketQuotaUsages = []\<rparr> ?open = (race_start, None)"
    by (simp add: race_start_def prod_eq_iff)
  moreover have "streams ?open = [0, 1]" by code_simp
  ultimately have "server_step MemoryStorage_store ?open race_start" by (intro step_message [of 1]) simp_all
  then show ?thesis using example_reachable by (blast intro: reach_step step_open)
qed

lemma race_start_scheduled:
  "\<exists>m. fine_steps MemoryStorage_store (start_machine example_init) m \<and> resting m \<and> machineServer m = race_start"
  using reachable_scheduled [OF race_start_reachable [unfolded example_init_def]] by (simp add: example_init_def)

lemma race_pcs: "snd race_removed = Gone None" "snd race_end = AtRecv" "nextPtr race_start = 2" "streams race_start = [0, 1]"
  by code_simp+

text \<open>One goroutine of the machine runs some steps on its own.\<close>

lemma run_own_fine:
  assumes "P sid = p" and "sid < nextPtr s"
  shows "fine_steps ops \<lparr>machineServer = s, pcs = P, pushers = G\<rparr>
    \<lparr>machineServer = fst (run_own ops sid n (s, p)), pcs = P(sid := snd (run_own ops sid n (s, p))), pushers = G\<rparr>
    \<and> nextPtr (fst (run_own ops sid n (s, p))) = nextPtr s"
  using own_run_fine [OF own_run_iter [of ops sid "(s, p)" n] assms(2), of P G] assms(1) by auto

lemma race_run:
  assumes "P 0 = AtRecv" "P 1 = AtRecv"
  shows "fine_steps MemoryStorage_store \<lparr>machineServer = race_start, pcs = P, pushers = []\<rparr>
    \<lparr>machineServer = fst race_end, pcs = P(0 := Gone None, 1 := AtRecv), pushers = []\<rparr> \<and> nextPtr (fst race_end) = 2"
proof -
  let ?steps = "fine_steps MemoryStorage_store"
  let ?m = "\<lambda>s P. \<lparr>machineServer = s, pcs = P, pushers = []\<rparr>"
  have P: "P(Suc 0 := q, 0 := r) = P(0 := r, Suc 0 := q)" for q r by (rule fun_upd_twist) simp
  obtain s1 p1 where bind: "bind_step 1 example_message (fst race_released) = (s1, p1)"
    by (cases "bind_step 1 example_message (fst race_released)")
  have "?steps (?m race_start P) (?m race_start (P(0 := AtReturn None)))"
    using fine_hangup [of 0 race_start P None] assms race_pcs(3) by auto
  moreover have released: "?steps (?m race_start (P(0 := AtReturn None))) (?m (fst race_released) (P(0 := snd race_released)))"
      "nextPtr (fst race_released) = 2"
    using run_own_fine [of "P(0 := AtReturn None)" 0 "AtReturn None" race_start MemoryStorage_store "[]" 4] race_pcs(3)
    by (simp_all add: race_released_def)
  moreover have "?steps (?m (fst race_released) (P(0 := snd race_released))) (?m s1 (P(0 := snd race_released, 1 := p1)))"
    using fine_message [of 1 "fst race_released" "P(0 := snd race_released)", OF _ _ bind] assms released(2) by auto
  moreover have next1: "nextPtr s1 = 2"
    using bind released(2) keeps_bind_domain [of 1 "fst race_released" example_message]
    by (auto simp: bind_step_def keeps_def Let_def split: prod.splits option.splits if_splits)
  have recorded: "?steps (?m s1 (P(0 := snd race_released, 1 := p1)))
      (?m (fst race_recorded) (P(0 := snd race_released, 1 := snd race_recorded)))" "nextPtr (fst race_recorded) = 2"
    using run_own_fine [of "P(0 := snd race_released, 1 := p1)" 1 p1 s1 MemoryStorage_store "[]" 4] next1
    by (simp_all add: race_recorded_def [unfolded bind])
  moreover have removed: "?steps (?m (fst race_recorded) (P(0 := snd race_released, 1 := snd race_recorded)))
      (?m (fst race_removed) (P(0 := Gone None, 1 := snd race_recorded)))" "nextPtr (fst race_removed) = 2"
    using run_own_fine [of "P(0 := snd race_released, 1 := snd race_recorded)" 0 "snd race_released" "fst race_recorded"
        MemoryStorage_store "[]" 2] recorded(2) race_pcs(1)
    by (simp_all add: race_removed_def P)
  moreover have "?steps (?m (fst race_removed) (P(0 := Gone None, 1 := snd race_recorded)))
      (?m (fst race_end) (P(0 := Gone None, 1 := AtRecv)))" "nextPtr (fst race_end) = 2"
    using run_own_fine [of "P(0 := Gone None, 1 := snd race_recorded)" 1 "snd race_recorded" "fst race_removed"
        MemoryStorage_store "[]" 4] removed(2) race_pcs(2)
    by (simp_all add: race_end_def)
  ultimately show ?thesis by (meson rtranclp_trans)
qed

text \<open>
  C38. The reference count is released before \<open>RemoveBucket\<close> is called and not under the same
  lock. In a run of a fresh server, a cleanup is overtaken by another stream that subscribes to
  the bucket and records usage; when both goroutines are done, a registered stream is subscribed
  to the bucket and holds its only reference, but the bucket's usage is gone from the store.
\<close>

theorem cleanup_races_with_subscription:
  "\<exists>m. fine_steps MemoryStorage_store (start_machine example_init) m \<and> resting m
    \<and> 1 \<in> set (streams (machineServer m)) \<and> race_key \<in> set (keys (subscriptions (heap (machineServer m) 1)))
    \<and> get_or 0 (bucketRefs (machineServer m)) (DomainScopedKey (domain (heap (machineServer m) 1)) race_key) = 1
    \<and> memory_usage (store (machineServer m)) (DomainScopedKey (domain (heap (machineServer m) 1)) race_key) = None"
proof -
  obtain m0 where m0: "fine_steps MemoryStorage_store (start_machine example_init) m0" "resting m0" "machineServer m0 = race_start"
    using race_start_scheduled by blast
  have inv: "machine_inv m0" using machine_inv_steps [OF m0(1)] by (simp add: example_init_def machine_inv_start)
  have waits: "pcs m0 0 = AtRecv" "pcs m0 1 = AtRecv"
    using resting_waits [OF inv m0(2)] m0(3) race_pcs(4) by simp_all
  let ?m = "\<lparr>machineServer = fst race_end, pcs = (pcs m0)(0 := Gone None, 1 := AtRecv), pushers = []\<rparr>"
  have eq: "\<lparr>machineServer = race_start, pcs = pcs m0, pushers = []\<rparr> = m0" using m0(2,3) by (cases m0) (simp add: resting_def)
  note races = race_run [of "pcs m0", OF waits, unfolded eq]
  have two: "nextPtr (fst race_end) = 2" by (rule conjunct2 [OF races])
  have run: "fine_steps MemoryStorage_store (start_machine example_init) ?m" by (rule rtranclp_trans [OF m0(1) conjunct1 [OF races]])
  have facts: "streams (fst race_end) = [1]" "keys (subscriptions (heap (fst race_end) 1)) = [race_key]"
      "get_or 0 (bucketRefs (fst race_end)) (DomainScopedKey (domain (heap (fst race_end) 1)) race_key) = 1"
      "memory_usage (store (fst race_end)) (DomainScopedKey (domain (heap (fst race_end) 1)) race_key) = None"
    by code_simp+
  show ?thesis
  proof (rule exI [of _ ?m], intro conjI)
    show "resting ?m" using two by (auto simp: resting_def less_2_cases_iff)
  qed (rule run, simp_all only: Machine.simps facts list.set insertI1)
qed

text \<open>
  C5. Reference counts and gauges survive every interleaving at lock granularity. However
  messages, disconnects, cleanups, swaps and pushes of a fresh server overlap, each count is at
  any moment what the goroutines hold at their program counters; and whenever all streams wait
  for messages the full server invariant holds, in particular every reference count is exact.
\<close>

theorem counts_exact_under_interleaving:
  assumes "fine_steps ops (start_machine (NewRLQS compile st eng cfg cl)) m"
  shows "machine_inv m \<and> (resting m \<longrightarrow> server_inv (machineServer m))"
  using machine_inv_steps [OF assms machine_inv_start] machine_inv_resting by blast

theorem counts_exact_under_interleaving_witness:
  "\<exists>m. fine_steps MemoryStorage_store (start_machine example_init) m \<and> server_inv (machineServer m)
    \<and> streams (machineServer m) = [0, 1]"
proof -
  obtain m where m: "fine_steps MemoryStorage_store (start_machine example_init) m" "resting m" "machineServer m = race_start"
    using race_start_scheduled by blast
  then have "server_inv (machineServer m)"
    using counts_exact_under_interleaving [OF m(1) [unfolded example_init_def]] by blast
  then show ?thesis using m(1,3) race_pcs(4) by (intro exI [of _ m]) simp
qed

end
