(* ===== verification/Service_Spec.thy ===== *)
theory Service_Spec
  imports Server_Behaviour
begin

text \<open>
  What the service promises, without its bookkeeping: an abstract service knows its clients, the
  domain and the set of buckets of each, and a ledger of usage per scoped bucket. It has no
  reference counts; the ledger simply forgets every bucket no client wants any more. Every step of
  the server of theory \<open>Server\<close> over a store that keeps usage is a sequence of steps of this service.
\<close>

section \<open>The abstract service\<close>

record client =
  boundTo :: "string option"
  wants :: "BucketKey set"

record service =
  clients :: "nat \<Rightarrow> client option"
  ledger :: "BucketKey \<Rightarrow> UsageState option"

definition wanted :: "service \<Rightarrow> BucketKey \<Rightarrow> bool" where
  "wanted A k \<longleftrightarrow> (\<exists>sid c d. \<exists>key \<in> wants c. clients A sid = Some c \<and> boundTo c = Some d \<and> DomainScopedKey d key = k)"

definition forget_unwanted :: "service \<Rightarrow> service" where
  "forget_unwanted A = A\<lparr>ledger := (\<lambda>k. if wanted A k then ledger A k else None)\<rparr>"

definition set_client :: "nat \<Rightarrow> client option \<Rightarrow> service \<Rightarrow> service" where
  "set_client sid c A = A\<lparr>clients := (clients A)(sid := c)\<rparr>"

definition enter_usage :: "string \<Rightarrow> UsageReport \<Rightarrow> service \<Rightarrow> service" where
  "enter_usage d r A = A\<lparr>ledger := (ledger A)(report_key d r := Some (add_usage r (ledger A (report_key d r))))\<rparr>"

text \<open>The steps of the service; \<open>cap\<close> bounds the buckets of a client when it is positive.\<close>

inductive service_step :: "int \<Rightarrow> service \<Rightarrow> service \<Rightarrow> bool" for cap where
  svc_connect: "clients A sid = None \<Longrightarrow>
    service_step cap A (set_client sid (Some \<lparr>boundTo = None, wants = {}\<rparr>) A)"
| svc_bind: "clients A sid = Some c \<Longrightarrow> boundTo c = None \<Longrightarrow> d \<noteq> [] \<Longrightarrow>
    service_step cap A (set_client sid (Some (c\<lparr>boundTo := Some d\<rparr>)) A)"
| svc_report: "clients A sid = Some c \<Longrightarrow> boundTo c = Some d \<Longrightarrow>
    K = insert (BucketKeyFromProto (ReportBucketId r)) (wants c) \<Longrightarrow> cap > 0 \<longrightarrow> int (card K) \<le> cap \<Longrightarrow>
    service_step cap A (enter_usage d r (set_client sid (Some (c\<lparr>wants := K\<rparr>)) A))"
| svc_abandon: "clients A sid = Some c \<Longrightarrow> key \<in> wants c \<Longrightarrow>
    service_step cap A (forget_unwanted (set_client sid (Some (c\<lparr>wants := wants c - {key}\<rparr>)) A))"
| svc_disconnect: "clients A sid = Some c \<Longrightarrow> service_step cap A (forget_unwanted (set_client sid None A))"

abbreviation service_steps :: "int \<Rightarrow> service \<Rightarrow> service \<Rightarrow> bool" where
  "service_steps cap \<equiv> rtranclp (service_step cap)"

definition service_start :: service where
  "service_start = \<lparr>clients = (\<lambda>_. None), ledger = (\<lambda>_. None)\<rparr>"

section \<open>The service a server implements\<close>

definition client_of :: "streamState \<Rightarrow> client" where
  "client_of ss = \<lparr>boundTo = (if domainBound ss then Some (domain ss) else None), wants = set (keys (subscriptions ss))\<rparr>"

definition service_of :: "('st \<Rightarrow> BucketKey \<Rightarrow> UsageState option) \<Rightarrow> 'st RLQSServer \<Rightarrow> service" where
  "service_of usage s =
     \<lparr>clients = (\<lambda>sid. if sid \<in> set (streams s) then Some (client_of (heap s sid)) else None), ledger = usage (store s)\<rparr>"

lemma wanted_iff:
  assumes "server_inv s"
  shows "wanted (service_of usage s) k \<longleftrightarrow> get_or 0 (bucketRefs s) k > 0"
proof -
  have "domainBound (heap s sid)" if "sid \<in> set (streams s)" "key \<in> set (keys (subscriptions (heap s sid)))" for sid key
    using assms that by (auto simp: server_inv_def stream_ok_def)
  then show ?thesis
    unfolding refs_positive_iff [OF assms] by (fastforce simp: wanted_def service_of_def client_of_def split: if_splits)
qed

text \<open>Operations that leave clients and store alone, and the ones that only change one client.\<close>

lemma service_of_same:
  "streams s' = streams s \<Longrightarrow> store s' = store s \<Longrightarrow> (\<And>sid. sid \<in> set (streams s) \<Longrightarrow> client_of (heap s' sid) = client_of (heap s sid)) \<Longrightarrow>
    service_of usage s' = service_of usage s"
  by (simp add: service_of_def fun_eq_iff)

lemma service_of_change:
  assumes "sid \<in> set (streams s)" and "streams s' = streams s" and "\<And>x. x \<noteq> sid \<Longrightarrow> heap s' x = heap s x"
  shows "service_of usage s' = (set_client sid (Some (client_of (heap s' sid))) (service_of usage s))\<lparr>ledger := usage (store s')\<rparr>"
  using assms by (simp add: service_of_def set_client_def fun_eq_iff)

lemma client_at: "sid \<in> set (streams s) \<Longrightarrow> clients (service_of usage s) sid = Some (client_of (heap s sid))"
  by (simp add: service_of_def)

lemma bind_domain_service:
  assumes "live sid s"
  shows "service_steps cap (service_of usage s) (service_of usage (fst (bind_domain sid req s)))"
proof (cases "domainBound (heap s sid) \<or> GetDomain req = []")
  case True
  then have "fst (bind_domain sid req s) = s" by (auto simp: bind_domain_def Let_def)
  then show ?thesis by simp
next
  case False
  let ?s = "fst (bind_domain sid req s)"
  have sid: "sid \<in> set (streams s)" using assms by (simp add: live_def)
  have "client_of (heap ?s sid) = (client_of (heap s sid))\<lparr>boundTo := Some (GetDomain req)\<rparr>"
      "streams ?s = streams s" "\<And>x. x \<noteq> sid \<Longrightarrow> heap ?s x = heap s x"
    using False by (auto simp: bind_domain_def classifyDomain_def upd_stream_def Let_def split_beta client_of_def)
  then have "service_of usage ?s = set_client sid (Some ((client_of (heap s sid))\<lparr>boundTo := Some (GetDomain req)\<rparr>)) (service_of usage s)"
    using service_of_change [OF sid, of ?s usage] by (simp add: set_client_def service_of_def)
  moreover have "service_step cap (service_of usage s) (set_client sid (Some ((client_of (heap s sid))\<lparr>boundTo := Some (GetDomain req)\<rparr>)) (service_of usage s))"
    using False by (intro svc_bind client_at [OF sid]) (simp_all add: client_of_def)
  ultimately show ?thesis by simp
qed

lemma close_stream_limits: "same_limits s (close_stream ops sid s)"
  by (simp add: close_stream_def cleanupStream_def upd_metrics_def Let_def) (simp add: same_limits_def)

lemma push_stream_max: "maxBucketsPerStream (push_stream e sid s) = maxBucketsPerStream s"
  using keeps_push_stream [of sid s e] by (simp add: keeps_def same_limits_def)

lemma push_fold_max: "maxBucketsPerStream (fold (push_stream e) sids s) = maxBucketsPerStream s"
  by (induction sids arbitrary: s) (simp_all add: push_stream_max)

section \<open>Simulation\<close>

text \<open>What a server whose store keeps usage does, the abstract service does; the store's laws suffice.\<close>

context bucket_store
begin

lemma track_usage_service:
  assumes "live sid s" and "domainBound (heap s sid)"
  shows "service_steps (maxBucketsPerStream s) (service_of usage s) (service_of usage (fst (track_usage ops ctx sid u s)))"
proof (cases "named u \<and> usage_valid s u \<and> capacity_ok s (insert (usage_key u) (subscribed sid s))")
  case True
  then obtain s' where run: "track_usage ops ctx sid u s = (s', Inr (Some (report_of u)))" and tr: "tracked ops ctx sid [u] s s'"
    using track_usage_named [OF assms, of u ops ctx] by auto
  have sid: "sid \<in> set (streams s)" using assms(1) by (simp add: live_def)
  let ?K = "insert (BucketKeyFromProto (ReportBucketId (report_of u))) (wants (client_of (heap s sid)))"
  have key: "usage_key u = BucketKeyFromProto (GetBucketId u)" by (simp add: usage_key_def)
  have K: "wants (client_of (heap s' sid)) = ?K" "boundTo (client_of (heap s' sid)) = boundTo (client_of (heap s sid))"
    using tr True assms(2) by (auto simp: tracked_def subscribed_def client_of_def usage_keys_def key)
  then have "client_of (heap s' sid) = (client_of (heap s sid))\<lparr>wants := ?K\<rparr>" by simp
  moreover have "usage (store s') = (usage (store s))(report_key (domain (heap s sid)) (report_of u) :=
      Some (add_usage (report_of u) (usage (store s) (report_key (domain (heap s sid)) (report_of u)))))"
    using tr True by (auto simp: tracked_def fun_eq_iff usage_RecordUsage)
  ultimately have "service_of usage s' =
      enter_usage (domain (heap s sid)) (report_of u) (set_client sid (Some ((client_of (heap s sid))\<lparr>wants := ?K\<rparr>)) (service_of usage s))"
    using service_of_change [OF sid, of s' usage] tr
    by (simp add: tracked_def keeps_def enter_usage_def set_client_def) (simp add: service_of_def)
  moreover have "service_step (maxBucketsPerStream s) (service_of usage s)
      (enter_usage (domain (heap s sid)) (report_of u) (set_client sid (Some ((client_of (heap s sid))\<lparr>wants := ?K\<rparr>)) (service_of usage s)))"
    using True assms(2)
    by (intro svc_report [OF client_at [OF sid] _ refl]) (simp_all add: client_of_def capacity_ok_def subscribed_def key)
  ultimately show ?thesis by (simp add: run)
next
  case False
  then have "fst (track_usage ops ctx sid u s) = s"
  proof (cases "named u")
    case True
    then obtain s' e where "track_usage ops ctx sid u s = (s', Inl e)" using False track_usage_named [OF assms, of u ops ctx] by auto
    then show ?thesis by (auto simp: track_usage_def split: option.splits if_splits prod.splits dest: subscribe_error)
  qed (simp add: track_usage_unnamed)
  then show ?thesis by simp
qed

lemma track_usages_service:
  "live sid s \<Longrightarrow> domainBound (heap s sid) \<Longrightarrow>
    service_steps (maxBucketsPerStream s) (service_of usage s) (service_of usage (fst (track_usages ops ctx sid us s)))"
proof (induction us arbitrary: s)
  case (Cons u us)
  obtain s1 r where u: "track_usage ops ctx sid u s = (s1, r)" by (cases "track_usage ops ctx sid u s")
  have "live sid s1" "domainBound (heap s1 sid)" and max: "maxBucketsPerStream s1 = maxBucketsPerStream s"
    using live_track_usage [OF Cons.prems, of ops ctx u] keeps_track_usage [of sid s ops ctx u] Cons.prems(2) u
    by (simp_all add: keeps_def same_limits_def)
  note rest = Cons.IH [OF this(1,2), unfolded max]
  have "service_steps (maxBucketsPerStream s) (service_of usage s) (service_of usage s1)"
    using track_usage_service [OF Cons.prems, of ctx u] u by simp
  then show ?case using rest u by (auto split: prod.splits sum.splits)
qed simp

text \<open>Dropping references only ever removes entries from the ledger, and exactly the unwanted ones.\<close>

lemma forget_service:
  assumes "server_inv s'" and "store_synced usage s'" and "\<And>k. usage (store s') k = usage (store s) k \<or> usage (store s') k = None"
    and "clients (service_of usage s') = clients A" and "ledger A = usage (store s)"
  shows "service_of usage s' = forget_unwanted A"
proof -
  have "wanted A k \<longleftrightarrow> usage (store s') k \<noteq> None" for k
    using wanted_iff [OF assms(1), of usage k] assms(2,4) by (simp add: wanted_def store_synced_def)
  then have "usage (store s') = (\<lambda>k. if wanted A k then ledger A k else None)"
    using assms(3,5) by (metis option.distinct(1))
  then show ?thesis using assms(4) by (simp add: forget_unwanted_def service_of_def)
qed

lemma release_ref_ledger:
  "usage (store (release_ref ops ctx d key s)) k = usage (store s) k \<or> usage (store (release_ref ops ctx d key s)) k = None"
  by (auto simp: release_ref_def Let_def split_beta usage_RemoveBucket)

lemma cleanup_keys_ledger:
  "usage (store (cleanup_keys ops d l ks s)) k = usage (store s) k \<or> usage (store (cleanup_keys ops d l ks s)) k = None"
proof (induction ks arbitrary: s)
  case (Cons key ks)
  show ?case
    using Cons.IH [of "release_ref ops Background d key (dec_active_buckets l s)"] release_ref_ledger [of Background d key "dec_active_buckets l s" k]
    by auto
qed simp

lemma abandon_action_service:
  assumes "live sid s" and "store_synced usage s"
  shows "service_steps cap (service_of usage s) (service_of usage (abandon_action ops ctx sid a s))"
proof (cases "is_abandon a \<and> BucketKeyFromProto (ActionBucketId a) \<in> set (keys (subscriptions (heap s sid)))")
  case True
  let ?key = "BucketKeyFromProto (ActionBucketId a)" and ?s = "abandon_action ops ctx sid a s"
  let ?A = "set_client sid (Some ((client_of (heap s sid))\<lparr>wants := wants (client_of (heap s sid)) - {?key}\<rparr>)) (service_of usage s)"
  have sid: "sid \<in> set (streams s)" using assms(1) by (simp add: live_def)
  have eq: "?s = dec_active_buckets (metricDomain (heap s sid)) (release_ref ops ctx (domain (heap s sid)) ?key
      (upd_stream sid (\<lambda>ss. ss\<lparr>subscriptions := AList.delete ?key (subscriptions ss)\<rparr>) s))"
    using True by (simp add: abandon_action_def Let_def)
  have "usage (store ?s) k = usage (store s) k \<or> usage (store ?s) k = None" for k
    using release_ref_ledger [of ctx "domain (heap s sid)" ?key "upd_stream sid (\<lambda>ss. ss\<lparr>subscriptions := AList.delete ?key (subscriptions ss)\<rparr>) s" k]
    by (simp add: eq upd_stream_def)
  moreover have "clients (service_of usage ?s) = clients ?A"
    using sid by (auto simp: service_of_def set_client_def client_of_def eq upd_stream_def gomap_simps fun_eq_iff)
  moreover have "server_inv ?s" "store_synced usage ?s"
    using live_abandon_action [OF assms(1)] synced_abandon_action [OF assms(2,1)] by (simp_all add: live_def)
  ultimately have "service_of usage ?s = forget_unwanted ?A"
    by (intro forget_service) (simp_all add: set_client_def service_of_def)
  moreover have "service_step cap (service_of usage s) (forget_unwanted ?A)"
    using True by (intro svc_abandon client_at [OF sid]) (simp add: client_of_def)
  ultimately show ?thesis by simp
next
  case False
  then have "abandon_action ops ctx sid a s = s" by (auto simp: abandon_action_def Let_def)
  then show ?thesis by simp
qed

lemma abandon_actions_service:
  "live sid s \<Longrightarrow> store_synced usage s \<Longrightarrow>
    service_steps cap (service_of usage s) (service_of usage (abandon_actions ops ctx sid as s))"
  by (induction as arbitrary: s)
    (auto intro: rtranclp_trans abandon_action_service live_abandon_action synced_abandon_action)

lemma answer_reports_service:
  assumes "live sid s" and "store_synced usage s"
  shows "service_steps cap (service_of usage s) (service_of usage (fst (answer_reports ops ctx sid reports s)))"
proof -
  have sends: "service_of usage (fst (send_response sid resp t)) = service_of usage t" for resp t
    by (rule service_of_same) (auto simp: send_response_def upd_stream_def client_of_def split: option.split)
  have counts: "service_of usage (add_assignments l n t) = service_of usage t" "service_of usage (count_reports l n t) = service_of usage t"
      "service_of usage (upd_metrics f t) = service_of usage t" for l n f t
    by (rule service_of_same; simp add: add_assignments_def count_reports_def upd_metrics_def)+
  have "service_steps cap (service_of usage s) (service_of usage (abandon_actions ops ctx sid as
      (add_assignments l n (upd_metrics (\<lambda>m. m\<lparr>EngineDuration := x m\<rparr>) (count_reports l' n' s)))))" for as l n x l' n'
    using abandon_actions_service [of sid "add_assignments l n (upd_metrics (\<lambda>m. m\<lparr>EngineDuration := x m\<rparr>) (count_reports l' n' s))" cap ctx as]
      assms by (simp add: counts store_synced_def)
  then show ?thesis by (auto simp: answer_reports_def Let_def sends counts split: sum.split)
qed

lemma handleMessage_service:
  assumes "live sid s" and "store_synced usage s"
  shows "service_steps (maxBucketsPerStream s) (service_of usage s) (service_of usage (fst (handleMessage ops sid req s)))"
proof -
  obtain s1 e1 where b: "bind_domain sid req s = (s1, e1)" by (cases "bind_domain sid req s")
  let ?ctx = "StreamCtx (stream (heap s sid))"
  obtain s2 r where t: "track_usages ops ?ctx sid (GetBucketQuotaUsages req) s1 = (s2, r)"
    by (cases "track_usages ops ?ctx sid (GetBucketQuotaUsages req) s1")
  have s1: "service_steps (maxBucketsPerStream s) (service_of usage s) (service_of usage s1)"
      "store_synced usage s1" "live sid s1" "maxBucketsPerStream s1 = maxBucketsPerStream s"
    using bind_domain_service [OF assms(1), of _ usage req] live_bind_domain [OF assms(1), of req] bind_domain_frame [of sid req s]
      keeps_bind_domain [of sid s req] assms(2) b by (simp_all add: store_synced_def keeps_def same_limits_def)
  have s2: "service_steps (maxBucketsPerStream s) (service_of usage s) (service_of usage s2)" "store_synced usage s2" "live sid s2"
    if "e1 = None"
  proof -
    have bound: "domainBound (heap s1 sid)" using bind_domain_bound [of sid req s s1] b that by simp
    show "store_synced usage s2" "live sid s2"
      using synced_track_usages [OF s1(2,3) bound, of ?ctx "GetBucketQuotaUsages req"]
        live_track_usages [OF s1(3) bound, of ops ?ctx "GetBucketQuotaUsages req"] t by simp_all
    show "service_steps (maxBucketsPerStream s) (service_of usage s) (service_of usage s2)"
      using rtranclp_trans [OF s1(1) track_usages_service [OF s1(3) bound, of ?ctx "GetBucketQuotaUsages req", unfolded s1(4)]] t by simp
  qed
  show ?thesis
    using b t s1(1) s2 rtranclp_trans [OF s2(1) answer_reports_service [OF s2(3,2)]]
    by (auto simp: handleMessage_def Let_def split: option.split sum.split)
qed

lemma close_stream_service:
  assumes "live sid s" and "store_synced usage s"
  shows "service_steps cap (service_of usage s) (service_of usage (close_stream ops sid s))"
proof -
  let ?s = "close_stream ops sid s" and ?A = "set_client sid None (service_of usage s)"
  have sid: "sid \<in> set (streams s)" and inv: "server_inv s" using assms(1) by (simp_all add: live_def)
  have "clients (service_of usage ?s) = clients ?A"
    using inv by (auto simp: service_of_def set_client_def close_stream_frame fun_eq_iff server_inv_def)
  moreover have "usage (store ?s) k = usage (store s) k \<or> usage (store ?s) k = None" for k
    using cleanup_keys_ledger [of "domain (heap s sid)" "metricDomain (heap s sid)" "keys (subscriptions (heap s sid))"
        "upd_metrics (\<lambda>m. m\<lparr>ActiveStreams := ActiveStreams m - 1\<rparr>) s\<lparr>streams := remove1 sid (streams s)\<rparr>" k]
    by (simp add: close_stream_def cleanupStream_def Let_def upd_metrics_def)
  ultimately have "service_of usage ?s = forget_unwanted ?A"
    using server_inv_close_stream [OF assms(1)] synced_close_stream [OF assms(2,1)]
    by (intro forget_service) (simp_all add: set_client_def service_of_def)
  moreover have "service_step cap (service_of usage s) (forget_unwanted ?A)" by (rule svc_disconnect [OF client_at [OF sid]])
  ultimately show ?thesis by simp
qed

lemma step_service:
  assumes "server_step ops s s'" and "server_inv s" and "store_synced usage s"
  shows "service_steps (maxBucketsPerStream s) (service_of usage s) (service_of usage s') \<and> maxBucketsPerStream s' = maxBucketsPerStream s"
  using assms(1)
proof cases
  case (step_open g)
  have fresh: "clients (service_of usage s) (nextPtr s) = None" using assms(2) by (auto simp: service_of_def server_inv_def)
  have "service_of usage s' = set_client (nextPtr s) (Some \<lparr>boundTo = None, wants = {}\<rparr>) (service_of usage s)"
    by (auto simp: step_open service_of_def set_client_def open_stream_def Let_def upd_metrics_def client_of_def new_stream_def fun_eq_iff)
  then show ?thesis using r_into_rtranclp [of "service_step (maxBucketsPerStream s)", OF svc_connect [OF fresh]]
    by (simp add: step_open open_stream_def Let_def upd_metrics_def)
next
  case (step_message sid req)
  then show ?thesis
    using handleMessage_service [of sid s req] keeps_handleMessage [of sid s ops req] assms
    by (simp add: live_def keeps_def same_limits_def)
next
  case (step_failure sid req t e)
  then have t: "live sid t" "store_synced usage t" "service_steps (maxBucketsPerStream s) (service_of usage s) (service_of usage t)"
      "maxBucketsPerStream t = maxBucketsPerStream s"
    using handleMessage_service [of sid s req] live_handleMessage [of sid s ops req] synced_handleMessage [of s sid req]
      keeps_handleMessage [of sid s ops req] assms by (simp_all add: live_def keeps_def same_limits_def)
  have "same_limits t s'" unfolding step_failure(1) by (rule close_stream_limits)
  then show ?thesis using rtranclp_trans [OF t(3) close_stream_service [OF t(1,2)]] t(4) by (simp add: step_failure(1) same_limits_def)
next
  case (step_disconnect sid)
  have "same_limits s s'" unfolding step_disconnect(1) by (rule close_stream_limits)
  then show ?thesis using close_stream_service [of sid s] assms(2,3) step_disconnect by (simp add: live_def same_limits_def)
next
  case (step_swap e)
  have "service_of usage s' = service_of usage s"
    by (rule service_of_same) (use step_swap in \<open>auto simp: SwapEngine_def engine_Store_def split: if_splits\<close>)
  then show ?thesis using step_swap by (auto simp: SwapEngine_def engine_Store_def split: if_splits)
next
  case (step_push i)
  have "service_of usage s' = service_of usage s"
    by (rule service_of_same) (simp_all add: step_push(1) run_push_def pushAssignments_def client_of_def)
  then show ?thesis by (simp add: step_push(1) run_push_def pushAssignments_def push_fold_max)
next
  case (step_classifier c)
  have "service_of usage s' = service_of usage s"
    by (rule service_of_same) (simp_all add: step_classifier SwapDomainClassifier_def)
  then show ?thesis by (simp add: step_classifier SwapDomainClassifier_def)
qed

lemma reachable_service:
  assumes "reachable ops init s" and "server_inv init" and "store_synced usage init"
  shows "service_steps (maxBucketsPerStream init) (service_of usage init) (service_of usage s) \<and> maxBucketsPerStream s = maxBucketsPerStream init"
  using assms(1)
proof (induction rule: reachable.induct)
  case (reach_step s s')
  then show ?case
    using step_service [OF reach_step(2)] server_inv_reachable [OF reach_step(1) assms(2)] synced_reachable [OF reach_step(1) assms(2,3)]
    by (auto intro: rtranclp_trans)
qed simp

end

section \<open>The refinement theorem\<close>

lemma service_of_new: "service_of memory_usage (NewRLQS compile NewMemoryStorage eng cfg cl) = service_start"
  by (simp add: service_of_def service_start_def NewRLQS_def NewMemoryStorage_def memory_usage_def fun_eq_iff)



end
