(* ===== verification/Redis_Concurrency.thy ===== *)
theory Redis_Concurrency
  imports Redis
begin

text \<open>
  Concurrent calls of the Redis store (\<open>src/internal/storage/redis.go\<close>). \<open>RecordUsage\<close> and
  \<open>RemoveBucket\<close> run on the goroutines of many streams and hold no lock across their steps: each
  load of \<open>tripped\<close>, each locked section of the breaker or of the fallback store and each Redis
  round trip is one step here, and the steps of different calls interleave in any order.
\<close>

section \<open>Calls and their steps\<close>

datatype redis_job = RecordJob go_context string UsageReport | RemoveJob go_context string BucketKey

datatype redis_pc =
    AtCheck | AtRetry | AtTryOpen | AtCapLen | AtCapGet | AtLocal | AtTry | AtTrip
  | AtFlush | AtFlushExec "redis_cmd list" | AtFlushClear | AtReset | Finished | Dropped

fun job_ctx :: "redis_job \<Rightarrow> go_context" where
  "job_ctx (RecordJob ctx d r) = ctx"
| "job_ctx (RemoveJob ctx d key) = ctx"

fun job_key :: "redis_job \<Rightarrow> BucketKey" where
  "job_key (RecordJob ctx d r) = report_key d r"
| "job_key (RemoveJob ctx d key) = DomainScopedKey d key"

text \<open>The Redis round trip of a call, and what it does to the fallback instead.\<close>

fun redis_call :: "'w redis_client \<Rightarrow> redis_job \<Rightarrow> RedisStorage \<Rightarrow> 'w \<Rightarrow> 'w \<times> go_error option" where
  "redis_call c (RecordJob ctx d r) s w = tryRedisRecordUsage c ctx (report_key d r) r s w"
| "redis_call c (RemoveJob ctx d key) s w = Del c ctx (DomainScopedKey d key) w"

fun local_call :: "redis_job \<Rightarrow> RedisStorage \<Rightarrow> RedisStorage" where
  "local_call (RecordJob ctx d r) s = fst (fallback_record ctx d r s)"
| "local_call (RemoveJob ctx d key) s = fst (fallback_remove ctx d key s)"

text \<open>Only \<open>RecordUsage\<close> checks the capacity of the fallback.\<close>

fun open_pc :: "redis_job \<Rightarrow> redis_pc" where
  "open_pc (RecordJob ctx d r) = AtCapLen"
| "open_pc (RemoveJob ctx d key) = AtLocal"

fun call_step ::
  "'w redis_client \<Rightarrow> redis_job \<Rightarrow> redis_pc \<Rightarrow> RedisStorage \<times> 'w \<Rightarrow> redis_pc \<times> RedisStorage \<times> 'w" where
  "call_step c job AtCheck (s, w) = (if isTripped s then AtRetry else AtTry, s, w)"
| "call_step c job AtRetry (s, w) = (if shouldRetry c w s then AtTryOpen else open_pc job, s, w)"
| "call_step c job AtTryOpen (s, w) =
     (case redis_call c job s w of (w', None) \<Rightarrow> (AtFlush, s, w') | (w', Some e) \<Rightarrow> (open_pc job, s, w'))"
| "call_step c job AtCapLen (s, w) =
     (if maxFallbackKeys s > 0 \<and> int (MemoryStorage_Len (fallback s)) \<ge> maxFallbackKeys s then AtCapGet else AtLocal, s, w)"
| "call_step c job AtCapGet (s, w) =
     (if \<not> snd (MemoryStorage_Get (fallback s) (job_key job)) then Dropped else AtLocal, s, w)"
| "call_step c job AtLocal (s, w) = (Finished, local_call job s, w)"
| "call_step c job AtTry (s, w) =
     (case redis_call c job s w of (w', None) \<Rightarrow> (Finished, s, w') | (w', Some e) \<Rightarrow> (AtTrip, s, w'))"
| "call_step c job AtTrip (s, w) = (AtLocal, trip c w s, w)"
| "call_step c job AtFlush (s, w) =
     (if length (MemoryStorage_All (fallback s)) = 0 then AtReset else AtFlushExec (flush_cmds s), s, w)"
| "call_step c job (AtFlushExec cmds) (s, w) = (AtFlushClear, s, fst (Exec c (job_ctx job) cmds w))"
| "call_step c job AtFlushClear (s, w) = (AtReset, s\<lparr>fallback := MemoryStorage_Clear (fallback s)\<rparr>, w)"
| "call_step c job AtReset (s, w) = (Finished, s\<lparr>tripped := False\<rparr>, w)"
| "call_step c job Finished (s, w) = (Finished, s, w)"
| "call_step c job Dropped (s, w) = (Dropped, s, w)"

definition finished :: "redis_pc \<Rightarrow> bool" where
  "finished pc \<longleftrightarrow> pc = Finished \<or> pc = Dropped"

section \<open>Interleaved runs\<close>

record 'w redis_machine =
  shared :: "RedisStorage \<times> 'w"
  calls :: "(redis_job \<times> redis_pc) list"

definition step_call :: "'w redis_client \<Rightarrow> nat \<Rightarrow> 'w redis_machine \<Rightarrow> 'w redis_machine" where
  "step_call c i m =
     (case calls m ! i of (job, pc) \<Rightarrow>
        case call_step c job pc (shared m) of (pc', st) \<Rightarrow> m\<lparr>shared := st, calls := (calls m)[i := (job, pc')]\<rparr>)"

text \<open>A new call, a step of a running call, or a change of the outside world (clock, outage).\<close>

inductive redis_step :: "'w redis_client \<Rightarrow> ('w \<Rightarrow> 'w \<Rightarrow> bool) \<Rightarrow> 'w redis_machine \<Rightarrow> 'w redis_machine \<Rightarrow> bool"
  for c outside where
  redis_begin: "redis_step c outside m (m\<lparr>calls := calls m @ [(job, AtCheck)]\<rparr>)"
| redis_advance: "i < length (calls m) \<Longrightarrow> redis_step c outside m (step_call c i m)"
| redis_outside: "outside (snd (shared m)) w \<Longrightarrow> redis_step c outside m (m\<lparr>shared := (fst (shared m), w)\<rparr>)"

section \<open>Every call ends, and alone it is the atomic operation\<close>

fun call_rank :: "redis_pc \<Rightarrow> nat" where
  "call_rank AtCheck = 8" | "call_rank AtRetry = 7" | "call_rank AtTryOpen = 6" | "call_rank AtFlush = 5"
| "call_rank (AtFlushExec cmds) = 4" | "call_rank AtFlushClear = 3" | "call_rank AtReset = 1"
| "call_rank AtTry = 5" | "call_rank AtTrip = 4" | "call_rank AtCapLen = 3" | "call_rank AtCapGet = 2"
| "call_rank AtLocal = 1" | "call_rank Finished = 0" | "call_rank Dropped = 0"

lemma call_rank_step: "\<not> finished pc \<Longrightarrow> call_rank (fst (call_step c job pc st)) < call_rank pc"
  by (cases job; cases "(c, job, pc, st)" rule: call_step.cases)
    (auto simp: finished_def split: prod.split option.split)

primrec run_call :: "nat \<Rightarrow> 'w redis_client \<Rightarrow> redis_job \<Rightarrow> redis_pc \<Rightarrow> RedisStorage \<times> 'w \<Rightarrow> redis_pc \<times> RedisStorage \<times> 'w" where
  "run_call 0 c job pc st = (pc, st)"
| "run_call (Suc n) c job pc st = (case call_step c job pc st of (pc', st') \<Rightarrow> run_call n c job pc' st')"

fun atomic_call :: "'w redis_client \<Rightarrow> redis_job \<Rightarrow> RedisStorage \<times> 'w \<Rightarrow> RedisStorage \<times> 'w" where
  "atomic_call c (RecordJob ctx d r) st = fst (RedisStorage_RecordUsage c ctx d r st)"
| "atomic_call c (RemoveJob ctx d key) st = fst (RedisStorage_RemoveBucket c ctx d key st)"

lemma run_call_finished: "finished pc \<Longrightarrow> run_call n c job pc st = (pc, st)"
  by (induction n; cases st) (auto simp: finished_def)

lemma run_call_Suc: "run_call (Suc n) c job pc st = run_call n c job (fst (call_step c job pc st)) (snd (call_step c job pc st))"
  by (simp add: split_beta)

lemma run_recovery:
  "snd (run_call 4 c job AtFlush (s, w)) = recoverFromFallback c (job_ctx job) (s, w)
    \<and> fst (run_call 4 c job AtFlush (s, w)) = Finished"
  by (simp add: eval_nat_numeral recoverFromFallback_def flushFallback_def split_beta)

lemma run_call_add: "run_call (m + n) c job pc st = run_call n c job (fst (run_call m c job pc st)) (snd (run_call m c job pc st))"
  by (induction m arbitrary: pc st) (simp_all add: split_beta)

lemma run_recovered: "run_call 5 c job AtFlush (s, w) = (Finished, recoverFromFallback c (job_ctx job) (s, w))"
  using run_recovery [of c job s w] run_call_add [of 4 1 c job AtFlush "(s, w)"]
  by (cases "recoverFromFallback c (job_ctx job) (s, w)") simp

lemma run_open_record:
  "\<exists>pc. run_call (3 + n) c (RecordJob ctx d r) AtCapLen (s, w) = (pc, fst (tripped_record ctx d r s), w) \<and> finished pc"
  by (auto simp: eval_nat_numeral tripped_record_def at_capacity_def run_call_finished finished_def)

lemma run_open:
  "\<exists>pc. run_call (3 + n) c job (open_pc job) (s, w) =
     (pc, (case job of RecordJob ctx d r \<Rightarrow> fst (tripped_record ctx d r s) | RemoveJob ctx d key \<Rightarrow> local_call job s), w) \<and> finished pc"
proof (cases job)
  case (RecordJob ctx d r)
  then show ?thesis using run_open_record [of n c ctx d r s w] by simp
next
  case (RemoveJob ctx d key)
  then show ?thesis by (simp add: eval_nat_numeral run_call_finished finished_def)
qed


section \<open>Concurrent reports\<close>

text \<open>What a call has contributed so far, and runs in which no call flushes the fallback.\<close>

fun applied :: "redis_pc \<Rightarrow> bool" where
  "applied Finished = True" | "applied AtFlush = True" | "applied AtReset = True" | "applied pc = False"

fun counted :: "BucketKey \<Rightarrow> string \<Rightarrow> redis_job \<times> redis_pc \<Rightarrow> uint64" where
  "counted k f (RecordJob ctx d r, pc) = (if applied pc \<and> k = report_key d r then report_amount r f else 0)"
| "counted k f (RemoveJob ctx d key, pc) = 0"

fun reporting :: "redis_job \<times> redis_pc \<Rightarrow> bool" where
  "reporting (RecordJob ctx d r, AtFlushExec cmds) = False"
| "reporting (RecordJob ctx d r, AtFlushClear) = False"
| "reporting (RecordJob ctx d r, pc) = True"
| "reporting (RemoveJob ctx d key, pc) = False"

definition quiet_step :: "'w redis_client \<Rightarrow> ('w \<Rightarrow> 'w \<Rightarrow> bool) \<Rightarrow> 'w redis_machine \<Rightarrow> 'w redis_machine \<Rightarrow> bool" where
  "quiet_step c outside m m' \<longleftrightarrow> redis_step c outside m m' \<and> list_all reporting (calls m')"

lemma sum_list_update_group:
  fixes g :: "'a \<Rightarrow> 'b::ab_group_add"
  assumes "i < length xs"
  shows "sum_list (map g (xs[i := y])) = sum_list (map g xs) + g y - g (xs ! i)"
  using assms by (induction xs arbitrary: i) (auto simp: nth_Cons' split: nat.split)

lemma group_shift: "(a::'b::ab_group_add) + y - x = a + ((b + y - x) - b)"
  by simp

lemma group_step: "(a' :: 'b::ab_group_add) = a + (t' - t) \<Longrightarrow> a = b + t \<Longrightarrow> a' = b + t'"
  by simp

lemma call_step_total:
  assumes "exec_applies c counters" and "exec_failure_clean c counters"
    and "reporting (RecordJob ctx d r, pc)" and "reporting (RecordJob ctx d r, pc')"
    and "call_step c (RecordJob ctx d r) pc (s, w) = (pc', s', w')"
  shows "total_usage counters (s', w') k f =
    total_usage counters (s, w) k f + counted k f (RecordJob ctx d r, pc') - counted k f (RecordJob ctx d r, pc)"
proof -
  let ?x = "if k = report_key d r then report_amount r f else 0"
  have ok: "total_usage counters (s, w1) k f = total_usage counters (s, w) k f + ?x"
    if "Exec c ctx (record_cmds s (report_key d r) r) w = (w1, None)" for w1
    by (rule record_exec_total [OF assms(1) that])
  have failed: "total_usage counters (s, w1) k f = total_usage counters (s, w) k f"
    if "Exec c ctx (record_cmds s (report_key d r) r) w = (w1, Some e)" for w1 e
  proof -
    have "counters w1 = counters w" using assms(2) that unfolding exec_failure_clean_def by blast
    then show ?thesis by (simp add: total_usage_def)
  qed
  have loc: "total_usage counters (fst (fallback_record ctx d r s), w) k f = total_usage counters (s, w) k f + ?x"
    by (rule fallback_record_total) simp_all
  have trp: "total_usage counters (trip c w s, w) k f = total_usage counters (s, w) k f"
    by (simp add: total_usage_def trip_def fallback_amount_def)
  have rst: "total_usage counters (s\<lparr>tripped := False\<rparr>, w) k f = total_usage counters (s, w) k f"
    by (simp add: total_usage_def fallback_amount_def)
  obtain w1 e where ex: "Exec c ctx (record_cmds s (report_key d r) r) w = (w1, e)"
    by (cases "Exec c ctx (record_cmds s (report_key d r) r) w")
  note result = assms(5) [symmetric]
  show ?thesis
  proof (cases pc)
    case AtTryOpen
    then show ?thesis using result ex ok failed by (cases e) (simp_all add: tryRedisRecordUsage_def)
  next
    case AtTry
    then show ?thesis using result ex ok failed by (cases e) (simp_all add: tryRedisRecordUsage_def)
  next
    case AtLocal
    then show ?thesis using result loc by simp
  next
    case AtTrip
    then show ?thesis using result trp by simp
  next
    case AtReset
    then show ?thesis using result rst by simp
  next
    case AtFlush
    then show ?thesis using result assms(4) by (simp split: if_splits)
  qed (use result assms(3) in \<open>simp_all split: if_splits\<close>)
qed

lemma step_call_total:
  assumes "exec_applies c counters" and "exec_failure_clean c counters" and "i < length (calls m)"
    and "list_all reporting (calls m)" and "list_all reporting (calls (step_call c i m))"
  shows "total_usage counters (shared (step_call c i m)) k f =
    total_usage counters (shared m) k f + (sum_list (map (counted k f) (calls (step_call c i m))) - sum_list (map (counted k f) (calls m)))"
proof -
  obtain job pc where j: "calls m ! i = (job, pc)" by (cases "calls m ! i")
  obtain pc' s' w' where c': "call_step c job pc (shared m) = (pc', s', w')" by (cases "call_step c job pc (shared m)") auto
  have m': "step_call c i m = m\<lparr>shared := (s', w'), calls := (calls m)[i := (job, pc')]\<rparr>" using j c' by (simp add: step_call_def)
  have rep: "reporting (job, pc)" using assms(4) nth_mem [OF assms(3)] j by (auto simp: list_all_iff)
  have rep': "reporting (job, pc')" using assms(5) set_update_memI [OF assms(3), of "(job, pc')"] unfolding m' list_all_iff by fastforce
  obtain ctx d r where job: "job = RecordJob ctx d r" using rep by (cases job) simp_all
  have one: "total_usage counters (s', w') k f = total_usage counters (shared m) k f + counted k f (job, pc') - counted k f (job, pc)"
    using call_step_total [OF assms(1,2) rep [unfolded job] rep' [unfolded job], of "fst (shared m)" "snd (shared m)" s' w' k f] c'
    by (simp only: job prod.collapse)
  have calls': "calls (step_call c i m) = (calls m)[i := (job, pc')]" and sh: "shared (step_call c i m) = (s', w')" by (simp_all add: m')
  have all: "sum_list (map (counted k f) (calls (step_call c i m))) =
      sum_list (map (counted k f) (calls m)) + counted k f (job, pc') - counted k f (job, pc)"
    using sum_list_update_group [OF assms(3), of "counted k f" "(job, pc')"] j by (simp only: calls')
  show ?thesis unfolding all sh one by (rule group_shift)
qed


section \<open>Schedules\<close>

text \<open>A schedule says whose step is next; between steps the clock may advance.\<close>

datatype turn = Turn nat | ClockAt int

definition clock_advances :: "sim_world \<Rightarrow> sim_world \<Rightarrow> bool" where
  "clock_advances w w' \<longleftrightarrow> sim_clock w \<le> sim_clock w' \<and> sim_up w' = sim_up w \<and> sim_hash w' = sim_hash w"

fun take_turn :: "turn \<Rightarrow> sim_world redis_machine \<Rightarrow> sim_world redis_machine" where
  "take_turn (Turn i) m = step_call sim_client i m"
| "take_turn (ClockAt t) m = m\<lparr>shared := (fst (shared m), (snd (shared m))\<lparr>sim_clock := t\<rparr>)\<rparr>"

fun possible :: "turn \<Rightarrow> sim_world redis_machine \<Rightarrow> bool" where
  "possible (Turn i) m \<longleftrightarrow> i < length (calls m)"
| "possible (ClockAt t) m \<longleftrightarrow> sim_clock (snd (shared m)) \<le> t"

fun run_turns :: "turn list \<Rightarrow> sim_world redis_machine \<Rightarrow> sim_world redis_machine option" where
  "run_turns [] m = Some m"
| "run_turns (t # ts) m = (if possible t m then run_turns ts (take_turn t m) else None)"

fun quiet_turns :: "turn list \<Rightarrow> sim_world redis_machine \<Rightarrow> bool" where
  "quiet_turns [] m = True"
| "quiet_turns (t # ts) m \<longleftrightarrow> list_all reporting (calls (take_turn t m)) \<and> quiet_turns ts (take_turn t m)"

definition two_reports :: "RedisStorage \<times> sim_world \<Rightarrow> sim_world redis_machine" where
  "two_reports st = \<lparr>shared = st, calls = replicate 2 (RecordJob Background ''d'' sim_report, AtCheck)\<rparr>"

lemma take_turn_step: "possible t m \<Longrightarrow> redis_step sim_client clock_advances m (take_turn t m)"
  by (cases t) (auto intro: redis_advance redis_outside simp: clock_advances_def)

lemma run_turns_steps: "run_turns ts m = Some m' \<Longrightarrow> rtranclp (redis_step sim_client clock_advances) m m'"
proof (induction ts arbitrary: m)
  case (Cons t ts)
  then have "redis_step sim_client clock_advances m (take_turn t m)"
      "rtranclp (redis_step sim_client clock_advances) (take_turn t m) m'"
    by (auto intro: take_turn_step split: if_splits)
  then show ?case by (rule converse_rtranclp_into_rtranclp)
qed simp

lemma run_turns_quiet: "run_turns ts m = Some m' \<Longrightarrow> quiet_turns ts m \<Longrightarrow> rtranclp (quiet_step sim_client clock_advances) m m'"
proof (induction ts arbitrary: m)
  case (Cons t ts)
  then have "rtranclp (quiet_step sim_client clock_advances) (take_turn t m) m'" by (simp split: if_splits)
  moreover have "quiet_step sim_client clock_advances m (take_turn t m)"
    using Cons.prems by (auto intro: take_turn_step simp: quiet_step_def split: if_splits)
  ultimately show ?case by (rule converse_rtranclp_into_rtranclp [rotated])
qed simp

lemma two_reports_begin:
  "rtranclp (quiet_step sim_client clock_advances) \<lparr>shared = st, calls = []\<rparr> (two_reports st)"
  "rtranclp (redis_step sim_client clock_advances) \<lparr>shared = st, calls = []\<rparr> (two_reports st)"
proof -
  let ?r = "RecordJob Background ''d'' sim_report"
  let ?m = "\<lambda>cs. \<lparr>shared = st, calls = cs\<rparr>"
  have s: "redis_step sim_client clock_advances (?m []) (?m [(?r, AtCheck)])"
      "redis_step sim_client clock_advances (?m [(?r, AtCheck)]) (?m [(?r, AtCheck), (?r, AtCheck)])"
    using redis_begin [of sim_client clock_advances "?m []" ?r] redis_begin [of sim_client clock_advances "?m [(?r, AtCheck)]" ?r] by simp_all
  have t: "two_reports st = ?m [(?r, AtCheck), (?r, AtCheck)]" by (simp add: two_reports_def numeral_2_eq_2)
  have "quiet_step sim_client clock_advances (?m []) (?m [(?r, AtCheck)])"
      "quiet_step sim_client clock_advances (?m [(?r, AtCheck)]) (two_reports st)"
    using s by (simp_all add: quiet_step_def t)
  then show "rtranclp (quiet_step sim_client clock_advances) (?m []) (two_reports st)"
    by (rule converse_rtranclp_into_rtranclp [OF _ r_into_rtranclp])
  show "rtranclp (redis_step sim_client clock_advances) (?m []) (two_reports st)"
    unfolding t by (rule converse_rtranclp_into_rtranclp [OF s(1) r_into_rtranclp [of "redis_step sim_client clock_advances", OF s(2)]])
qed

definition outage :: "sim_world redis_machine" where
  "outage = two_reports (sim_storage, sim_start False 0)"

definition alternating :: "turn list" where
  "alternating = map Turn [0, 1, 0, 1, 0, 1, 0, 1]"


section \<open>Recovery is not isolated\<close>

definition two_recoveries :: "turn list" where
  "two_recoveries = map Turn ([0, 0, 0, 0] @ [1, 1, 1, 1] @ [0, 0, 0] @ [1, 1, 1])"

definition lost_report :: "turn list" where
  "lost_report = map Turn [1, 1, 1] @ [ClockAt 6000000000] @ map Turn ([0, 0, 0, 0] @ [1] @ [0, 0, 0])"

definition late_report :: "turn list" where
  "late_report = map Turn [1, 1, 1] @ [ClockAt 6000000000] @ map Turn ([0, 0, 0, 0] @ [0, 0, 0] @ [1])"

definition all_finished :: "sim_world redis_machine \<Rightarrow> bool" where
  "all_finished m \<longleftrightarrow> list_all (\<lambda>x. snd x = Finished) (calls m)"

lemma turns_reach:
  assumes "run_turns ts (two_reports st) = Some m"
  shows "rtranclp (redis_step sim_client clock_advances) \<lparr>shared = st, calls = []\<rparr> m"
  using two_reports_begin(2) run_turns_steps [OF assms] by (rule rtranclp_trans)

lemma option_witness:
  assumes "case x of None \<Rightarrow> False | Some m \<Rightarrow> P m"
  obtains m where "x = Some m" and "P m"
  using assms by (cases x) simp_all

text \<open>
  C37. Two calls that recover at the same time count the fallback twice. With 30 allowed
  requests in the fallback, two concurrent reports of 5 leave 70 in Redis instead of 40:
  both copied the fallback before either cleared it.
\<close>

theorem concurrent_recoveries_double_count:
  "\<exists>m. rtranclp (redis_step sim_client clock_advances) \<lparr>shared = (sim_tripped, sim_start True 6000000000), calls = []\<rparr> m
    \<and> length (calls m) = 2 \<and> all_finished m
    \<and> total_usage sim_hash (sim_tripped, sim_start True 6000000000) (report_key ''d'' sim_report) fieldAllowed = 30
    \<and> total_usage sim_hash (shared m) (report_key ''d'' sim_report) fieldAllowed = 70"
proof -
  let ?st = "(sim_tripped, sim_start True 6000000000)"
  have "case run_turns two_recoveries (two_reports ?st) of None \<Rightarrow> False
      | Some m \<Rightarrow> length (calls m) = 2 \<and> all_finished m
          \<and> total_usage sim_hash (shared m) (report_key ''d'' sim_report) fieldAllowed = 70" by code_simp
  then obtain m where "run_turns two_recoveries (two_reports ?st) = Some m"
      "length (calls m) = 2 \<and> all_finished m \<and> total_usage sim_hash (shared m) (report_key ''d'' sim_report) fieldAllowed = 70"
    by (rule option_witness)
  moreover have "total_usage sim_hash ?st (report_key ''d'' sim_report) fieldAllowed = 30" by code_simp
  ultimately show ?thesis using turns_reach by blast
qed

text \<open>
  A report that reaches the fallback while another call recovers is lost when it comes
  before the clearing of the fallback (35 instead of 40), and stays behind a closed breaker
  when it comes after, where a closed breaker is meant to have an empty fallback.
\<close>

theorem recovery_loses_concurrent_report:
  "\<exists>m m'. rtranclp (redis_step sim_client clock_advances) \<lparr>shared = (sim_tripped, sim_start True 0), calls = []\<rparr> m
    \<and> rtranclp (redis_step sim_client clock_advances) \<lparr>shared = (sim_tripped, sim_start True 0), calls = []\<rparr> m'
    \<and> length (calls m) = 2 \<and> all_finished m \<and> length (calls m') = 2 \<and> all_finished m'
    \<and> total_usage sim_hash (shared m) (report_key ''d'' sim_report) fieldAllowed = 35
    \<and> \<not> tripped (fst (shared m')) \<and> fallback_amount (fst (shared m')) (report_key ''d'' sim_report) fieldAllowed = 5
    \<and> \<not> breaker_inv (fst (shared m'))"
proof -
  let ?st = "(sim_tripped, sim_start True 0)"
  have "case run_turns lost_report (two_reports ?st) of None \<Rightarrow> False
      | Some m \<Rightarrow> length (calls m) = 2 \<and> all_finished m
          \<and> total_usage sim_hash (shared m) (report_key ''d'' sim_report) fieldAllowed = 35" by code_simp
  then obtain m where m: "run_turns lost_report (two_reports ?st) = Some m"
      "length (calls m) = 2 \<and> all_finished m \<and> total_usage sim_hash (shared m) (report_key ''d'' sim_report) fieldAllowed = 35"
    by (rule option_witness)
  have "case run_turns late_report (two_reports ?st) of None \<Rightarrow> False
      | Some m \<Rightarrow> length (calls m) = 2 \<and> all_finished m \<and> \<not> tripped (fst (shared m))
          \<and> fallback_amount (fst (shared m)) (report_key ''d'' sim_report) fieldAllowed = 5" by code_simp
  then obtain m' where m': "run_turns late_report (two_reports ?st) = Some m'"
      "length (calls m') = 2 \<and> all_finished m' \<and> \<not> tripped (fst (shared m'))
          \<and> fallback_amount (fst (shared m')) (report_key ''d'' sim_report) fieldAllowed = 5"
    by (rule option_witness)
  have "\<not> breaker_inv (fst (shared m'))"
    using m'(2) by (auto simp: breaker_inv_def fallback_amount_def)
  then show ?thesis using turns_reach [OF m(1)] turns_reach [OF m'(1)] m(2) m'(2) by blast
qed

section \<open>The capacity of the fallback is not exact\<close>

definition other_report :: UsageReport where
  "other_report = sim_report\<lparr>ReportBucketId := Some \<lparr>Bucket = [(''n'', ''x'')]\<rparr>\<rparr>"

definition small_storage :: RedisStorage where
  "small_storage = NewRedisStorage \<lparr>Addr = ''redis:6379'', PoolSize = 0, KeyTTL = 0, MaxFallbackKeys = 1\<rparr>"

definition two_buckets :: "sim_world redis_machine" where
  "two_buckets = \<lparr>shared = (small_storage, sim_start False 0),
     calls = [(RecordJob Background ''d'' sim_report, AtCheck), (RecordJob Background ''d'' other_report, AtCheck)]\<rparr>"

lemma two_buckets_begin:
  "rtranclp (redis_step sim_client clock_advances) \<lparr>shared = (small_storage, sim_start False 0), calls = []\<rparr> two_buckets"
proof -
  let ?m = "\<lambda>cs. \<lparr>shared = (small_storage, sim_start False 0), calls = cs\<rparr>"
  let ?a = "(RecordJob Background ''d'' sim_report, AtCheck)" and ?b = "(RecordJob Background ''d'' other_report, AtCheck)"
  have "redis_step sim_client clock_advances (?m []) (?m [?a])" "redis_step sim_client clock_advances (?m [?a]) (?m [?a, ?b])"
    using redis_begin [of sim_client clock_advances "?m []" "fst ?a"] redis_begin [of sim_client clock_advances "?m [?a]" "fst ?b"] by simp_all
  then show ?thesis unfolding two_buckets_def by (meson r_into_rtranclp rtranclp.rtrancl_into_rtrancl)
qed

text \<open>
  Calls that find the breaker closed when an outage begins all reach the fallback without a
  capacity check: with a capacity of one bucket, two concurrent reports leave two buckets, which
  no sequence of calls can do.
\<close>

theorem concurrent_reports_exceed_capacity:
  "\<exists>m. rtranclp (redis_step sim_client clock_advances) \<lparr>shared = (small_storage, sim_start False 0), calls = []\<rparr> m
    \<and> all_finished m \<and> maxFallbackKeys (fst (shared m)) = 1 \<and> MemoryStorage_Len (fallback (fst (shared m))) = 2
    \<and> breaker_inv small_storage \<and> \<not> breaker_inv (fst (shared m))"
proof -
  have "case run_turns alternating two_buckets of None \<Rightarrow> False
      | Some m \<Rightarrow> all_finished m \<and> maxFallbackKeys (fst (shared m)) = 1 \<and> MemoryStorage_Len (fallback (fst (shared m))) = 2" by code_simp
  then obtain m where m: "run_turns alternating two_buckets = Some m"
      "all_finished m \<and> maxFallbackKeys (fst (shared m)) = 1 \<and> MemoryStorage_Len (fallback (fst (shared m))) = 2"
    by (rule option_witness)
  have "rtranclp (redis_step sim_client clock_advances) \<lparr>shared = (small_storage, sim_start False 0), calls = []\<rparr> m"
    using two_buckets_begin run_turns_steps [OF m(1)] by (rule rtranclp_trans)
  moreover have "breaker_inv small_storage" by (simp only: small_storage_def breaker_inv_New)
  moreover have "\<not> breaker_inv (fst (shared m))" using m(2) by (simp add: breaker_inv_def)
  ultimately show ?thesis using m(2) by blast
qed

end
