(* ===== verification/Classifier_Concurrency.thy ===== *)
theory Classifier_Concurrency
  imports Metrics
begin

text \<open>
  Concurrent calls of \<open>DomainClassifier.Classify\<close> (\<open>src/internal/metrics/domain.go\<close>). The method looks
  the domain up under the read lock, matches the patterns without a lock, and looks it up again
  before admitting it under the write lock. Handlers of many streams call it on one classifier;
  here the three parts of any number of calls interleave in any order.
\<close>

section \<open>Calls and their steps\<close>

datatype classify_pc = AtFast | AtMatch | AtAdmit

fun classify_part :: "string \<Rightarrow> classify_pc \<Rightarrow> DomainClassifier \<Rightarrow> (classify_pc + string) \<times> DomainClassifier" where
  "classify_part d AtFast c = (if is_known c d then Inr d else Inl AtMatch, c)"
| "classify_part d AtMatch c = (if \<not> pattern_matched c d then Inr UnknownDomain else Inl AtAdmit, c)"
| "classify_part d AtAdmit c = (case admit d c of (label, c') \<Rightarrow> (Inr label, c'))"

text \<open>The shared classifier, the calls in progress, and the answers in the order they were determined.\<close>

record classify_machine =
  table :: DomainClassifier
  inFlight :: "(string \<times> classify_pc) list"
  answered :: "(string \<times> string) list"

inductive classify_step :: "classify_machine \<Rightarrow> classify_machine \<Rightarrow> bool" where
  classify_begin: "classify_step m (m\<lparr>inFlight := inFlight m @ [(d, AtFast)]\<rparr>)"
| classify_go: "inFlight m = xs @ (d, pc) # ys \<Longrightarrow> classify_part d pc (table m) = (Inl pc', c') \<Longrightarrow>
    classify_step m (m\<lparr>table := c', inFlight := xs @ (d, pc') # ys\<rparr>)"
| classify_answer: "inFlight m = xs @ (d, pc) # ys \<Longrightarrow> classify_part d pc (table m) = (Inr label, c') \<Longrightarrow>
    classify_step m \<lparr>table = c', inFlight = xs @ ys, answered = answered m @ [(d, label)]\<rparr>"

abbreviation classify_steps :: "classify_machine \<Rightarrow> classify_machine \<Rightarrow> bool" where
  "classify_steps \<equiv> rtranclp classify_step"

definition classify_start :: "DomainClassifier \<Rightarrow> classify_machine" where
  "classify_start c = \<lparr>table = c, inFlight = [], answered = []\<rparr>"

section \<open>Linearization\<close>

lemma patterns_Classify: "patterns (snd (Classify d c)) = patterns c"
  by (simp add: Classify_def admit_def)

lemma pattern_matched_cong: "patterns c' = patterns c \<Longrightarrow> pattern_matched c' d = pattern_matched c d"
  by (simp add: pattern_matched_def)

text \<open>A part that answers does, at that moment, what the whole method would do.\<close>

lemma classify_part_answer:
  assumes "classifier_inv c" and "pc = AtAdmit \<longrightarrow> pattern_matched c d" and "classify_part d pc c = (Inr label, c')"
  shows "Classify d c = (label, c')"
proof (cases pc)
  case AtFast
  then show ?thesis using assms(3) by (auto simp: Classify_def split: if_splits)
next
  case AtMatch
  then have "\<not> pattern_matched c d" "label = UnknownDomain" "c' = c" using assms(3) by (auto split: if_splits)
  moreover have "\<not> is_known c d"
    using calculation(1) assms(1) is_known_iff [OF assms(1), of d] by (auto simp: classifier_inv_def)
  ultimately show ?thesis by (simp add: Classify_def)
next
  case AtAdmit
  then have "admit d c = (label, c')" using assms(3) by (auto split: prod.splits)
  then show ?thesis using assms(2) AtAdmit by (auto simp: Classify_def admit_def)
qed

lemma classify_part_go: "classify_part d pc c = (Inl pc', c') \<Longrightarrow> c' = c \<and> (pc' = AtAdmit \<longrightarrow> pattern_matched c d)"
  by (cases pc) (auto split: if_splits prod.splits)

lemma classify_all_snoc:
  "classify_all (ds @ [d]) c =
    (fst (classify_all ds c) @ [fst (Classify d (snd (classify_all ds c)))], snd (Classify d (snd (classify_all ds c))))"
  by (induction ds arbitrary: c) (simp_all add: split_beta)

definition linear :: "DomainClassifier \<Rightarrow> classify_machine \<Rightarrow> bool" where
  "linear c m \<longleftrightarrow>
     classify_all (map fst (answered m)) c = (map snd (answered m), table m)
     \<and> classifier_inv (table m)
     \<and> (\<forall>d. (d, AtAdmit) \<in> set (inFlight m) \<longrightarrow> pattern_matched (table m) d)"

lemma linear_step:
  assumes "classify_step m m'" and lin: "linear c m"
  shows "linear c m'"
  using assms(1)
proof cases
  case (classify_begin d)
  then show ?thesis using lin by (auto simp: linear_def)
next
  case (classify_go xs d pc ys pc' c')
  then show ?thesis using lin classify_part_go [OF classify_go(3)] by (auto simp: linear_def)
next
  case (classify_answer xs d pc ys label c')
  have inv: "classifier_inv (table m)" and pm: "pc = AtAdmit \<longrightarrow> pattern_matched (table m) d"
    using lin classify_answer(2) by (auto simp: linear_def)
  have cl: "Classify d (table m) = (label, c')" by (rule classify_part_answer [OF inv pm classify_answer(3)])
  have "patterns c' = patterns (table m)"
    using patterns_Classify [of d "table m"] by (simp add: cl)
  then have "pattern_matched c' x = pattern_matched (table m) x" for x by (rule pattern_matched_cong)
  then show ?thesis
    using lin classify_answer(1,2) cl Classify_inv [OF inv, of d] by (auto simp: linear_def classify_all_snoc)
qed

text \<open>
  C23. \<open>Classify\<close> is linearizable. However the calls of any number of goroutines interleave between
  their locks, the labels they return and the table they leave are those of calling the method
  one call at a time, in the order in which the answers were determined; the second lookup under
  the write lock makes the first one and the unlocked matching harmless.
\<close>

theorem concurrent_Classify_linearizable:
  assumes "NewDomainClassifier compile pats n = Inr c" and "classify_steps (classify_start c) m"
  shows "classify_all (map fst (answered m)) c = (map snd (answered m), table m)"
proof -
  have "linear c m"
    using assms(2)
  proof (induction rule: rtranclp_induct)
    case base
    then show ?case using NewDomainClassifier_inv [OF assms(1)] by (simp add: linear_def classify_start_def)
  next
    case (step m1 m2)
    then show ?case by (blast intro: linear_step)
  qed
  then show ?thesis by (simp add: linear_def)
qed

text \<open>Two calls for the same new domain that both miss it under the read lock.\<close>

definition one_label :: DomainClassifier where
  "one_label = \<lparr>patterns = [], known = [], maxDomains = 1\<rparr>"

lemma double_miss:
  "classify_steps (classify_start one_label)
    \<lparr>table = one_label\<lparr>known := [(''a'', True)]\<rparr>, inFlight = [], answered = [(''a'', ''a''), (''a'', ''a'')]\<rparr>"
proof -
  let ?t = one_label and ?k = "one_label\<lparr>known := [(''a'', True)]\<rparr>"
  let ?m = "\<lambda>t fs as. \<lparr>table = t, inFlight = fs, answered = as\<rparr>"
  note [simp] = one_label_def is_known_def get_or_def pattern_matched_def admit_def
  have "classify_step (?m ?t [] []) (?m ?t [(''a'', AtFast)] [])"
    using classify_begin [of "?m ?t [] []" "''a''"] by simp
  moreover have "classify_step (?m ?t [(''a'', AtFast)] []) (?m ?t [(''a'', AtFast), (''a'', AtFast)] [])"
    using classify_begin [of "?m ?t [(''a'', AtFast)] []" "''a''"] by simp
  moreover have "classify_step (?m ?t [(''a'', AtFast), (''a'', AtFast)] []) (?m ?t [(''a'', AtMatch), (''a'', AtFast)] [])"
    using classify_go [of "?m ?t [(''a'', AtFast), (''a'', AtFast)] []" "[]" "''a''" AtFast "[(''a'', AtFast)]"] by simp
  moreover have "classify_step (?m ?t [(''a'', AtMatch), (''a'', AtFast)] []) (?m ?t [(''a'', AtMatch), (''a'', AtMatch)] [])"
    using classify_go [of "?m ?t [(''a'', AtMatch), (''a'', AtFast)] []" "[(''a'', AtMatch)]" "''a''" AtFast "[]"] by simp
  moreover have "classify_step (?m ?t [(''a'', AtMatch), (''a'', AtMatch)] []) (?m ?t [(''a'', AtAdmit), (''a'', AtMatch)] [])"
    using classify_go [of "?m ?t [(''a'', AtMatch), (''a'', AtMatch)] []" "[]" "''a''" AtMatch "[(''a'', AtMatch)]"] by simp
  moreover have "classify_step (?m ?t [(''a'', AtAdmit), (''a'', AtMatch)] []) (?m ?t [(''a'', AtAdmit), (''a'', AtAdmit)] [])"
    using classify_go [of "?m ?t [(''a'', AtAdmit), (''a'', AtMatch)] []" "[(''a'', AtAdmit)]" "''a''" AtMatch "[]"] by simp
  moreover have "classify_step (?m ?t [(''a'', AtAdmit), (''a'', AtAdmit)] []) (?m ?k [(''a'', AtAdmit)] [(''a'', ''a'')])"
    using classify_answer [of "?m ?t [(''a'', AtAdmit), (''a'', AtAdmit)] []" "[]" "''a''" AtAdmit "[(''a'', AtAdmit)]"] by simp
  moreover have "classify_step (?m ?k [(''a'', AtAdmit)] [(''a'', ''a'')]) (?m ?k [] [(''a'', ''a''), (''a'', ''a'')])"
    using classify_answer [of "?m ?k [(''a'', AtAdmit)] [(''a'', ''a'')]" "[]" "''a''" AtAdmit "[]"] by simp
  ultimately show ?thesis unfolding classify_start_def by (meson r_into_rtranclp rtranclp_trans)
qed

theorem concurrent_Classify_linearizable_witness:
  "\<exists>c. NewDomainClassifier literal_Compile [] 1 = Inr c
     \<and> classify_all [''a'', ''a''] c = ([''a'', ''a''], c\<lparr>known := [(''a'', True)]\<rparr>)"
proof -
  have new: "NewDomainClassifier literal_Compile [] 1 = Inr one_label" by (simp add: NewDomainClassifier_def one_label_def)
  show ?thesis using new concurrent_Classify_linearizable [OF new double_miss] by simp
qed

end
