(* ===== verification/Spec2Isabelle.thy ===== *)
theory Spec2Isabelle
  imports Process Schedules Service_Spec Redis_Concurrency Classifier_Concurrency
begin

text \<open>
  \<^bold>\<open>Verification of the RLQS server\<close>

  The program under \<open>src/\<close> is a Rate Limit Quota Service for Envoy, written in Go. Clients open a
  bidirectional gRPC stream, bind it to a domain and report the usage of buckets; the server
  subscribes the stream to every reported bucket, records the usage in a store (in memory, or
  Redis behind a circuit breaker), asks a quota engine for assignments and sends them back. A
  configuration file is watched while the server runs; a valid change replaces the engine, and
  the new engine's assignments are pushed to all streams. An HTTP server shows the state.

  \<^bold>\<open>Theories and what they model\<close>

  \<^item> \<open>RLQS_Prelude\<close>: machine integers and durations as words, Go maps as association lists with
    distinct keys, contexts, and the lemma collection \<open>gomap_simps\<close> the components share.
  \<^item> \<open>Storage\<close> (\<open>internal/storage/storage.go\<close>): bucket keys, domain scoping, \<open>MemoryStorage\<close> and the
    \<open>BucketStore\<close> interface. Locales: \<open>usage_storage\<close> (the \<open>Storage\<close> interface), \<open>fail_open_store\<close>,
    \<open>bucket_store\<close>, \<open>store_invariant\<close>, all interpreted on \<open>MemoryStorage\<close>.
  \<^item> \<open>Redis\<close> (\<open>internal/storage/redis.go\<close>): the Redis store with circuit breaker and fallback. The
    client (pipeline execution, delete, close, clock) is a record of functions; what the store
    relies on are the hypotheses \<open>exec_applies\<close> (a successful pipeline has applied its increments),
    \<open>exec_failure_clean\<close> (a failed one has applied none), \<open>del_removes\<close> and \<open>closed_refuses\<close>; a
    simulated client satisfies them.
  \<^item> \<open>Redis_Concurrency\<close> (the same file): \<open>RecordUsage\<close> and \<open>RemoveBucket\<close> as machines with a program
    counter (\<open>call_step\<close>), one step per atomic load, locked section or round trip; any number of
    calls interleave with each other and with changes of Redis and the clock.
  \<^item> \<open>Durations\<close>: \<open>time.ParseDuration\<close> of Go's library, with its rounding of fractions.
  \<^item> \<open>Config\<close> (\<open>internal/config/config.go\<close>, \<open>diff.go\<close>): the configuration records, \<open>UnmarshalYAML\<close> of
    \<open>Duration\<close>, \<open>Load\<close> with its precedence rules, \<open>Diff\<close>. File access and YAML decoding are parameters.
  \<^item> \<open>Watcher\<close> (\<open>internal/config/watcher.go\<close>): the debounced file watcher as a step relation with
    time, the event queue, the pending timer, the reload goroutines and the channel.
  \<^item> \<open>Engines\<close> (\<open>internal/quota/quota.go\<close>, \<open>internal/policy/policy.go\<close>): the default engine and the
    policy engine. Locale \<open>quota_engine\<close>, interpreted on both.
  \<^item> \<open>Metrics\<close> (\<open>internal/metrics\<close>): the collectors and the domain classifier;
    \<open>Classifier_Concurrency\<close>: concurrent calls of \<open>Classify\<close> split at its critical sections.
  \<^item> \<open>Server\<close> (\<open>internal/server/server.go\<close>): stream states on a heap, the server record, and one
    definition per operation: \<open>bind_domain\<close>, \<open>track_usages\<close>, \<open>answer_reports\<close>, \<open>handleMessage\<close>,
    \<open>cleanupStream\<close>, \<open>StreamRateLimitQuotas\<close>, \<open>SwapEngine\<close>, \<open>pushAssignments\<close>, \<open>StreamStats\<close>. The store is
    any \<open>BucketStore\<close> record, the engine any value of the \<open>Engine\<close> interface; \<open>SwapEngine\<close> has the
    panic of \<open>atomic.Value\<close> on a changed concrete type.
  \<^item> \<open>Server_Invariant\<close>, \<open>Server_Reachable\<close>, \<open>Server_Behaviour\<close>: the server invariant and its
    preservation by every operation; the step relation \<open>server_step\<close> and its reachable states; which
    messages are accepted and what they lead to, the life of a stream, pushes after a swap.
  \<^item> \<open>Service_Spec\<close>: an abstract quota service (clients, their domains and wanted buckets, usage)
    and the refinement of the server to it.
  \<^item> \<open>Interleaving\<close>, \<open>Schedules\<close> (\<open>server.go\<close>): every goroutine of the server with a program counter
    (\<open>stream_step\<close>, \<open>push_next\<close>), interleaved wherever a mutex is released or a shared object used;
    exactness of the counts, agreement with the atomic relation, termination of handlers, races.
  \<^item> \<open>Lifecycle\<close> (\<open>server.go\<close>): interceptors, options, TLS credentials, health statuses, shutdown.
  \<^item> \<open>Tracing\<close> (\<open>internal/tracing/tracing.go\<close>): \<open>Init\<close> and its shutdown function over a model of the
    global provider; the OpenTelemetry SDK is a parameter.
  \<^item> \<open>Admin\<close> (\<open>internal/admin/admin.go\<close>): the HTTP endpoints.
  \<^item> \<open>Assembly\<close> (\<open>cmd/rlqs-server/main.go\<close>): the builders of store, engine, strategies and
    classifier, and one iteration of the hot-reload loop (\<open>hot_reload\<close>).
  \<^item> \<open>Process\<close> (\<open>main.go\<close>): \<open>main_start\<close> with every fatal exit, then the steps \<open>main_step\<close> of the running
    process, which compose server, store, watcher, reload loop, tracing and shutdown.
  \<^item> this theory: properties of the server together with the Redis store.

  \<^bold>\<open>Groups of results\<close>

  \<^item> The whole process: what is true in every state it can reach, what clients get from it, that a
    valid edit reaches them, what the admin endpoints show, how it starts and ends.
  \<^item> The server: reference counts, gauges, limits and canonical keys are right in every reachable
    state, with atomic handlers and again at lock granularity; the in-memory store holds usage for
    exactly the subscribed buckets; a stream leaves nothing behind; a message is accepted exactly
    when a declarative condition holds, with its full effect; the server refines the service.
  \<^item> The stores: the in-memory store refines counters; the Redis store conserves usage over outages,
    alone and under concurrent reports, recovers, and keeps its breaker invariant under any load
    of calls that do not overlap.
  \<^item> Configuration and engines: the engine built from a configuration implements it; precedence,
    durations and the bounds of derived durations; hot reload on every branch; the watcher is safe
    and settles; TLS credentials; label cardinality, also under concurrent classification.
  \<^item> Behaviours that differ from the documentation or lose data, each as a theorem: a reload that
    panics, stale pushes, races of cleanup with subscription and of recovery with recovery or
    reports, a fallback beyond its capacity, a replaced file that ends hot reload, a panic on shutdown, forgotten pending restarts,
    key collisions, truncated token counts, negative and overflowing intervals, deny responses
    without effect, deletion of usage other instances share.

  \<^bold>\<open>Conventions\<close>

  Strings are byte strings. Go's \<open>int\<close> is \<^typ>\<open>int\<close>: only lengths, limits and counts that stay
  far below its range occur. 64-bit counters and durations are words and wrap. Errors are values of
  sums and options, a panic of the modelled code is the left summand. Go's map iteration order is
  the list order, which is arbitrary in the input messages; results that could depend on it are
  stated for sets or for the order of the input. Loops are structural recursion or have a measure;
  \<open>stream_loop\<close> consumes the finite list of received events and says \<open>Running\<close> when the list ends before
  the RPC does, and the machines have no fuel but rank functions that decrease with every step of a
  handler. Logging is not modelled.

  \<^bold>\<open>Not modelled\<close>

  Regular expressions are a parameter: \<open>regexp.Compile\<close> gives an error or a predicate on strings. Its
  syntax and its character classes rest on Unicode tables of the library, and the program only uses
  whether a pattern compiles and matches. Flag parsing, the logger, the metrics listener, JSON and
  YAML encoding, the Prometheus registry, gRPC, \<open>crypto/tls\<close>, OpenTelemetry and \<open>fsnotify\<close> are I/O or
  libraries; what they do is a parameter or a step of the environment. \<open>main_step\<close> takes each handler
  call as one step; \<open>Schedules\<close> relates such steps to the lock-granular machine. Engines that panic or
  block are outside the \<open>Engine\<close> model.
\<close>

section \<open>The server over Redis\<close>

text \<open>A server instance over the simulated Redis of theory \<open>Redis\<close>, and a change of the shared world.\<close>

definition redis_instance :: "sim_world \<Rightarrow> (RedisStorage \<times> sim_world) RLQSServer" where
  "redis_instance w =
     NewRLQS literal_Compile
       (NewRedisStorage \<lparr>Addr = ''redis:6379'', PoolSize = 0, KeyTTL = 0, MaxFallbackKeys = 0\<rparr>, w)
       example_engine (ServerOf default_config) None"

definition after_message :: "sim_world \<Rightarrow> (RedisStorage \<times> sim_world) RLQSServer" where
  "after_message w =
     fst (handleMessage (RedisStorage_store sim_client) 0 example_message
            (snd (open_stream example_grpc (redis_instance w))))"

definition in_world :: "sim_world \<Rightarrow> (RedisStorage \<times> sim_world) RLQSServer \<Rightarrow> (RedisStorage \<times> sim_world) RLQSServer" where
  "in_world w s = s\<lparr>store := (fst (store s), w)\<rparr>"

lemma after_message_reachable:
  "reachable (RedisStorage_store sim_client) (redis_instance w) (after_message w)"
proof -
  let ?ops = "RedisStorage_store sim_client"
  let ?open = "snd (open_stream example_grpc (redis_instance w))"
  have "live (fst (open_stream example_grpc (redis_instance w))) ?open"
    unfolding redis_instance_def by (rule live_open_stream [OF server_inv_NewRLQS])
  then have live: "live 0 ?open" by (simp add: open_stream_frame) (simp add: redis_instance_def NewRLQS_def)
  have idle: "heap ?open 0 = new_stream example_grpc" and eng: "engine ?open = example_engine"
    by (simp_all add: open_stream_def redis_instance_def NewRLQS_def upd_metrics_def Let_def)
  have q: "quota_engine (ProcessUsage (engine ?open)) (\<lambda>d key. assignment_of None (Some (StrategyBlanketRule ALLOW_ALL)))"
    unfolding eng example_engine_def DefaultEngine_value_def
    using default_engine.quota_engine_axioms [of "\<lparr>DefaultStrategy = Some (StrategyBlanketRule ALLOW_ALL), DefaultAssignmentTTL = None\<rparr>"]
    by simp
  have "acceptable 0 example_message ?open"
    unfolding acceptable_def domain_ok_def reports_ok_def usages_ok_def capacity_ok_def subscribed_def usage_keys_def idle
    by (simp add: new_stream_def example_message_def example_usage_def example_bucket_def named_def has_bucket_def
        usage_valid_def validate_bucket_def open_stream_def redis_instance_def NewRLQS_def upd_metrics_def Let_def
        default_config_def)
  then have "handleMessage ?ops 0 example_message ?open = (after_message w, None)"
    using accepted_message_store [OF live _ q, of example_message ?ops] idle
    by (auto simp: after_message_def new_stream_def example_grpc_def)
  then have "server_step ?ops ?open (after_message w)"
    using live by (intro step_message) (auto simp: live_def)
  then show ?thesis by (blast intro: reach_init reach_step step_open)
qed



text \<open>
  C40. Reference counts are per instance. When two instances share one Redis and both have a
  subscriber for a bucket, the disconnect of the only subscriber of one instance deletes the
  bucket's shared usage although the other instance still references it.
\<close>

theorem shared_redis_cleanup_loses_usage:
  "\<exists>a b. reachable (RedisStorage_store sim_client) (redis_instance (sim_start True 0)) a
    \<and> reachable (RedisStorage_store sim_client) (redis_instance (snd (store a))) b
    \<and> get_or 0 (bucketRefs b) (DomainScopedKey ''d'' (''name'' @ [CHR 0x00] @ ''a'')) = 1
    \<and> sim_hash (snd (store b)) (DomainScopedKey ''d'' (''name'' @ [CHR 0x00] @ ''a'')) fieldAllowed = 6
    \<and> sim_hash (snd (store (close_stream (RedisStorage_store sim_client) 0 (in_world (snd (store b)) a))))
        (DomainScopedKey ''d'' (''name'' @ [CHR 0x00] @ ''a'')) fieldAllowed = 0"
proof (intro exI conjI)
  let ?a = "after_message (sim_start True 0)"
  let ?b = "after_message (snd (store ?a))"
  show "reachable (RedisStorage_store sim_client) (redis_instance (sim_start True 0)) ?a"
    and "reachable (RedisStorage_store sim_client) (redis_instance (snd (store ?a))) ?b"
    by (rule after_message_reachable)+
  show "get_or 0 (bucketRefs ?b) (DomainScopedKey ''d'' (''name'' @ [CHR 0x00] @ ''a'')) = 1" by code_simp
  show "sim_hash (snd (store ?b)) (DomainScopedKey ''d'' (''name'' @ [CHR 0x00] @ ''a'')) fieldAllowed = 6" by code_simp
  show "sim_hash (snd (store (close_stream (RedisStorage_store sim_client) 0 (in_world (snd (store ?b)) ?a))))
        (DomainScopedKey ''d'' (''name'' @ [CHR 0x00] @ ''a'')) fieldAllowed = 0" by code_simp
qed

end
